theory Spec2Isabelle
  imports Complex_Main
begin

section \<open>Values of the component\<close>

text \<open>
  The virtual list of \<^verbatim>\<open>src/components/List/VirtualList/index.tsx\<close>. A JavaScript
  \<^verbatim>\<open>number\<close> that measures a length (a size, an offset) is a rational here; an index
  or a count is an integer. A value of type \<^verbatim>\<open>number | string\<close> keeps both
  alternatives.
\<close>

type_synonym number = rat

datatype size_value = Num number | Str string

datatype error = IndexOutOfRange | ConfigurationError | TypeError

datatype DIRECTION = HORIZONTAL | VERTICAL

datatype size_key = Width | Height

datatype position_key = Left | Top

text \<open>
  Modelled from the spec: the tables \<^verbatim>\<open>sizeProp\<close> and \<^verbatim>\<open>positionProp\<close> of
  \<^verbatim>\<open>./types\<close>, which is not among the sources. The component reads the container's
  extent along the scroll axis as \<^verbatim>\<open>props[sizeProp[scrollDirection]]\<close> and writes an
  item's offset along the scroll axis to \<^verbatim>\<open>positionProp[scrollDirection]\<close>; the props
  have the keys \<^verbatim>\<open>width\<close> and \<^verbatim>\<open>height\<close> and a style the keys \<^verbatim>\<open>left\<close> and
  \<^verbatim>\<open>top\<close>, so a vertical list measures heights from the top and a horizontal one
  widths from the left.
\<close>

fun sizeProp :: "DIRECTION \<Rightarrow> size_key" where
  "sizeProp VERTICAL = Height"
| "sizeProp HORIZONTAL = Width"

fun positionProp :: "DIRECTION \<Rightarrow> position_key" where
  "positionProp VERTICAL = Top"
| "positionProp HORIZONTAL = Left"

datatype ItemStylePosition = Sticky | Absolute

text \<open>
  Modelled from the spec: \<^verbatim>\<open>DEFAULT_ZINDEX\<close> is a constant of \<^verbatim>\<open>./types\<close>, which is
  not among the sources; the spec calls it the elevated layering value. It stays a
  symbol, next to the \<^verbatim>\<open>'auto'\<close> that a normal item gets.
\<close>

datatype zIndex_value = DEFAULT_ZINDEX | ZAuto

text \<open>
  \<^verbatim>\<open>STYLE_ITEM\<close> has five keys; an \<^verbatim>\<open>ItemStyle\<close> has the same five and
  \<^verbatim>\<open>zIndex\<close>.
\<close>

record StyleItem =
  position :: ItemStylePosition
  width :: size_value
  height :: size_value
  left :: number
  top' :: number

record ItemStyle = StyleItem +
  zIndex :: zIndex_value

definition STYLE_ITEM :: StyleItem where
  "STYLE_ITEM = \<lparr>position = Absolute, width = Str ''100%'', height = Str ''auto'',
                 left = 0, top' = 0\<rparr>"

text \<open>The computed keys of the object literals in \<^verbatim>\<open>getStyle\<close>.\<close>

definition set_position :: "position_key \<Rightarrow> number \<Rightarrow> ItemStyle \<Rightarrow> ItemStyle" where
  "set_position k v st = (case k of Left \<Rightarrow> st\<lparr>left := v\<rparr> | Top \<Rightarrow> st\<lparr>top' := v\<rparr>)"

definition set_size :: "size_key \<Rightarrow> number \<Rightarrow> ItemStyle \<Rightarrow> ItemStyle" where
  "set_size k v st = (case k of Width \<Rightarrow> st\<lparr>width := Num v\<rparr> | Height \<Rightarrow> st\<lparr>height := Num v\<rparr>)"

definition get_position :: "position_key \<Rightarrow> ItemStyle \<Rightarrow> number" where
  "get_position k st = (case k of Left \<Rightarrow> left st | Top \<Rightarrow> top' st)"

definition get_size :: "size_key \<Rightarrow> ItemStyle \<Rightarrow> size_value" where
  "get_size k st = (case k of Width \<Rightarrow> width st | Height \<Rightarrow> height st)"

text \<open>The key of the axis across the scroll axis.\<close>

fun cross_key :: "size_key \<Rightarrow> size_key" where
  "cross_key Width = Height"
| "cross_key Height = Width"

section \<open>The size and position manager\<close>

record SizeAndPosition =
  sp_offset :: number
  sp_size :: number

text \<open>
  Modelled from the spec: the class \<^verbatim>\<open>SizeAndPositionManager\<close> of
  \<^verbatim>\<open>./SizeAndPositionManger\<close>, which is not among the sources. Its state is the
  configuration (the item count and the two getters), the table of the cached
  offsets and sizes, and the last measured index, -1 when nothing is measured. The
  item size getter gives the known size of an index, or nothing; the estimated size
  getter gives the uniform estimate.
\<close>

record SizeAndPositionManager =
  m_itemCount :: int
  m_itemSizeGetter :: "int \<Rightarrow> number option"
  m_estimatedSizeGetter :: "int \<Rightarrow> number"
  m_itemSizeAndPositionData :: "int \<rightharpoonup> SizeAndPosition"
  m_lastMeasuredIndex :: int

text \<open>
  Modelled from the spec: the size of one index is \<^verbatim>\<open>itemSizeGetter(idx)\<close> if
  defined, else \<^verbatim>\<open>estimatedSizeGetter(idx)\<close>.
\<close>

definition size_at :: "SizeAndPositionManager \<Rightarrow> int \<Rightarrow> number" where
  "size_at m k = (case m_itemSizeGetter m k of Some s \<Rightarrow> s | None \<Rightarrow> m_estimatedSizeGetter m k)"

text \<open>
  Modelled from the spec: \<^verbatim>\<open>getSizeAndPositionOfLastMeasuredItem()\<close> returns the
  cached record at the last measured index, or offset 0 and size 0 if none is
  measured.
\<close>

definition getSizeAndPositionOfLastMeasuredItem :: "SizeAndPositionManager \<Rightarrow> SizeAndPosition" where
  "getSizeAndPositionOfLastMeasuredItem m =
     (if 0 \<le> m_lastMeasuredIndex m
      then (case m_itemSizeAndPositionData m (m_lastMeasuredIndex m) of
              Some r \<Rightarrow> r
            | None \<Rightarrow> \<lparr>sp_offset = 0, sp_size = 0\<rparr>)
      else \<lparr>sp_offset = 0, sp_size = 0\<rparr>)"

text \<open>
  Modelled from the spec: the table is filled sequentially from the index after the
  last measured one through the requested index; each step stores the offset reached
  and the size of the index, and the next offset is the sum of the two.
\<close>

function fill_table ::
  "SizeAndPositionManager \<Rightarrow> int \<Rightarrow> int \<Rightarrow> number \<Rightarrow> (int \<rightharpoonup> SizeAndPosition)
     \<Rightarrow> (int \<rightharpoonup> SizeAndPosition)" where
  "fill_table m k i off tab =
     (if k \<le> i
      then fill_table m (k + 1) i (off + size_at m k)
             (tab(k \<mapsto> \<lparr>sp_offset = off, sp_size = size_at m k\<rparr>))
      else tab)"
  by pat_completeness auto
termination
  by (relation "measure (\<lambda>(m, k, i, off, tab). nat (i + 1 - k))") auto

declare fill_table.simps [simp del]

text \<open>
  Modelled from the spec: \<^verbatim>\<open>getSizeAndPositionForIndex(i)\<close> requires
  \<open>0 \<le> i < itemCount\<close> and signals an index out of range otherwise. It fills the
  table from the last measured index through \<open>i\<close>, advances the last measured index
  to \<open>i\<close> if the item size getter returned a real size, and returns the record of
  \<open>i\<close>. A record missing from the table, which the fill excludes for the indices up
  to the last measured one, would make the caller read a property of
  \<^verbatim>\<open>undefined\<close>.
\<close>

definition getSizeAndPositionForIndex ::
  "SizeAndPositionManager \<Rightarrow> int \<Rightarrow> error + (SizeAndPosition \<times> SizeAndPositionManager)" where
  "getSizeAndPositionForIndex m i =
     (if i < 0 \<or> m_itemCount m \<le> i then Inl IndexOutOfRange
      else
        let m' =
          (if m_lastMeasuredIndex m < i
           then
             (let last = getSizeAndPositionOfLastMeasuredItem m
              in m\<lparr>m_itemSizeAndPositionData :=
                     fill_table m (m_lastMeasuredIndex m + 1) i (sp_offset last + sp_size last)
                       (m_itemSizeAndPositionData m),
                   m_lastMeasuredIndex :=
                     (if m_itemSizeGetter m i \<noteq> None then i else m_lastMeasuredIndex m)\<rparr>)
           else m)
        in (case m_itemSizeAndPositionData m' i of
              None \<Rightarrow> Inl TypeError
            | Some r \<Rightarrow> Inr (r, m')))"

text \<open>
  Modelled from the spec: \<^verbatim>\<open>getTotalSize()\<close> is the offset plus the size of the last
  measured item, plus the estimated size for each of the
  \<open>itemCount - 1 - lastMeasuredIndex\<close> items after it, and 0 when the item count is
  0. The estimate is uniform; it is read at the first index that is not measured.
\<close>

definition getTotalSize :: "SizeAndPositionManager \<Rightarrow> number" where
  "getTotalSize m =
     (if m_itemCount m = 0 then 0
      else
        let last = getSizeAndPositionOfLastMeasuredItem m
        in sp_offset last + sp_size last
           + of_int (m_itemCount m - 1 - m_lastMeasuredIndex m)
             * m_estimatedSizeGetter m (m_lastMeasuredIndex m + 1))"

text \<open>
  Modelled from the spec: the visible range that \<^verbatim>\<open>getVisibleRange\<close> returns, the
  inclusive indices \<^verbatim>\<open>start\<close> and \<^verbatim>\<open>end\<close>, or the empty range. The component
  reads the two fields and tests each against \<^verbatim>\<open>undefined\<close>, so the empty range has
  neither.
\<close>

record VisibleRange =
  range_start :: "int option"
  range_end :: "int option"

definition empty_range :: VisibleRange where
  "empty_range = \<lparr>range_start = None, range_end = None\<rparr>"

text \<open>
  Modelled from the spec: the search for the smallest index whose offset plus size
  exceeds the current offset. The spec fixes what is found and leaves the strategy
  to the implementation; the search here goes up from the index given, measuring
  each index it probes, and ends at the item count when no index qualifies.
\<close>

function find_start ::
  "int \<Rightarrow> number \<Rightarrow> SizeAndPositionManager \<Rightarrow> int \<Rightarrow> error + (int \<times> SizeAndPositionManager)" where
  "find_start n cur m i =
     (if n \<le> i then Inr (i, m)
      else (case getSizeAndPositionForIndex m i of
              Inl e \<Rightarrow> Inl e
            | Inr (r, m') \<Rightarrow>
                if cur < sp_offset r + sp_size r then Inr (i, m')
                else find_start n cur m' (i + 1)))"
  by pat_completeness auto
termination
  by (relation "measure (\<lambda>(n, cur, m, i). nat (n - i))") auto

declare find_start.simps [simp del]

text \<open>
  Modelled from the spec: the scan forward from the start for the largest index
  whose offset is below the current offset plus the container size.
\<close>

function find_end ::
  "int \<Rightarrow> number \<Rightarrow> SizeAndPositionManager \<Rightarrow> int \<Rightarrow> error + (int \<times> SizeAndPositionManager)" where
  "find_end n hi m i =
     (if n \<le> i + 1 then Inr (i, m)
      else (case getSizeAndPositionForIndex m (i + 1) of
              Inl e \<Rightarrow> Inl e
            | Inr (r, m') \<Rightarrow>
                if sp_offset r < hi then find_end n hi m' (i + 1)
                else Inr (i, m')))"
  by pat_completeness auto
termination
  by (relation "measure (\<lambda>(n, hi, m, i). nat (n - i))") auto

declare find_end.simps [simp del]

text \<open>Modelled from the spec: the clamp of an index to \<open>[0, itemCount - 1]\<close>.\<close>

definition clamp_index :: "int \<Rightarrow> int \<Rightarrow> int" where
  "clamp_index n i = max 0 (min (n - 1) i)"

text \<open>
  Modelled from the spec: \<^verbatim>\<open>getVisibleRange({containerSize, currentOffset, overscan})\<close>
  returns the empty range when the item count is 0 or the container size is at most
  0; otherwise it finds the start and the end as above, subtracts the overscan from
  the start and adds it to the end, and clamps both to \<open>[0, itemCount - 1]\<close>. The
  component passes \<^verbatim>\<open>props.width\<close> or \<^verbatim>\<open>props.height\<close> as the container size, of
  type \<^verbatim>\<open>number | string\<close>; the spec defines the query on numbers only, and a string
  of a list with items is an invalid configuration.
\<close>

definition getVisibleRange ::
  "SizeAndPositionManager \<Rightarrow> size_value \<Rightarrow> number \<Rightarrow> int
     \<Rightarrow> error + (VisibleRange \<times> SizeAndPositionManager)" where
  "getVisibleRange m containerSize currentOffset overscan =
     (if m_itemCount m = 0 then Inr (empty_range, m)
      else (case containerSize of
              Str _ \<Rightarrow> Inl ConfigurationError
            | Num c \<Rightarrow>
                if c \<le> 0 then Inr (empty_range, m)
                else (case find_start (m_itemCount m) currentOffset m 0 of
                        Inl e \<Rightarrow> Inl e
                      | Inr (start0, m1) \<Rightarrow>
                          (case find_end (m_itemCount m) (currentOffset + c) m1 start0 of
                             Inl e \<Rightarrow> Inl e
                           | Inr (end0, m2) \<Rightarrow>
                               Inr (\<lparr>range_start = Some (clamp_index (m_itemCount m) (start0 - overscan)),
                                     range_end = Some (clamp_index (m_itemCount m) (end0 + overscan))\<rparr>,
                                    m2)))))"

text \<open>
  Modelled from the spec: \<^verbatim>\<open>resetItem(index)\<close> sets the last measured index to the
  minimum of itself and \<open>index - 1\<close> and discards the cached offsets of the indices
  from \<open>index\<close> on; nothing is recomputed.
\<close>

definition resetItem :: "SizeAndPositionManager \<Rightarrow> int \<Rightarrow> SizeAndPositionManager" where
  "resetItem m index =
     m\<lparr>m_lastMeasuredIndex := min (m_lastMeasuredIndex m) (index - 1),
       m_itemSizeAndPositionData :=
         (\<lambda>j. if j < index then m_itemSizeAndPositionData m j else None)\<rparr>"

text \<open>
  Modelled from the spec: the partial configuration that \<^verbatim>\<open>updateConfig\<close> takes; the
  component passes either the item count alone or the two getters.
\<close>

record ConfigUpdate =
  cfg_itemCount :: "int option"
  cfg_itemSizeGetter :: "(int \<Rightarrow> number option) option"
  cfg_estimatedSizeGetter :: "(int \<Rightarrow> number) option"

text \<open>
  Modelled from the spec: \<^verbatim>\<open>updateConfig(partial)\<close> merges the item count and the two
  getters; if the item count shrinks, the last measured index is clamped to
  \<open>itemCount - 1\<close>. It does not touch the style cache of the component.
\<close>

definition updateConfig :: "SizeAndPositionManager \<Rightarrow> ConfigUpdate \<Rightarrow> SizeAndPositionManager" where
  "updateConfig m c =
     (let n = (case cfg_itemCount c of Some k \<Rightarrow> k | None \<Rightarrow> m_itemCount m)
      in m\<lparr>m_itemCount := n,
           m_itemSizeGetter :=
             (case cfg_itemSizeGetter c of Some g \<Rightarrow> g | None \<Rightarrow> m_itemSizeGetter m),
           m_estimatedSizeGetter :=
             (case cfg_estimatedSizeGetter c of Some g \<Rightarrow> g | None \<Rightarrow> m_estimatedSizeGetter m),
           m_lastMeasuredIndex :=
             (if n < m_itemCount m then min (m_lastMeasuredIndex m) (n - 1)
              else m_lastMeasuredIndex m)\<rparr>)"

text \<open>
  Modelled from the spec: the constructor takes the item count and the two getters;
  the table is empty and nothing is measured.
\<close>

definition new_SizeAndPositionManager ::
  "int \<Rightarrow> (int \<Rightarrow> number option) \<Rightarrow> (int \<Rightarrow> number) \<Rightarrow> SizeAndPositionManager" where
  "new_SizeAndPositionManager n g e =
     \<lparr>m_itemCount = n, m_itemSizeGetter = g, m_estimatedSizeGetter = e,
      m_itemSizeAndPositionData = Map.empty, m_lastMeasuredIndex = - 1\<rparr>"

section \<open>The data manager\<close>

text \<open>
  Modelled from the spec: the state of the data manager, of the type
  \<^verbatim>\<open>VirutalListDataManagerState\<close> of \<^verbatim>\<open>./VirutalListDataManager\<close>, which is not among
  the sources; the fields are the ones the component reads. The item size of the
  configuration is a fixed number, a function of the index, or absent. A function is an object: \<^verbatim>\<open>!==\<close> compares two of them by identity, so a
  function value carries the identity of its object next to what it computes.
\<close>

datatype ItemSize = Fixed number | PerIndex nat "int \<Rightarrow> number option" | Unset

record VirutalListDataManagerState =
  itemCount :: int
  itemSize :: ItemSize
  estimatedSize :: number
  overscan :: int
  stickyIndices :: "int list option"

text \<open>
  Modelled from the spec: \<^verbatim>\<open>getItemSizeGetter\<close> and \<^verbatim>\<open>getEstimatedGetter\<close> of
  \<^verbatim>\<open>./utils\<close>, which is not among the sources. The item size getter maps an index
  to its known size; the estimated size getter gives the uniform estimate, which for
  a fixed item size is that size (the total size of N items of the fixed size S is
  N times S).
\<close>

definition getItemSizeGetter :: "ItemSize \<Rightarrow> int \<Rightarrow> number option" where
  "getItemSizeGetter s = (case s of Fixed v \<Rightarrow> (\<lambda>i. Some v) | PerIndex r f \<Rightarrow> f | Unset \<Rightarrow> (\<lambda>i. None))"

definition getEstimatedGetter :: "number \<Rightarrow> ItemSize \<Rightarrow> int \<Rightarrow> number" where
  "getEstimatedGetter e s = (case s of Fixed v \<Rightarrow> (\<lambda>i. v) | PerIndex r f \<Rightarrow> (\<lambda>i. e) | Unset \<Rightarrow> (\<lambda>i. e))"

text \<open>
  Modelled from the spec: the class \<^verbatim>\<open>VirutalListDataManager\<close> of
  \<^verbatim>\<open>./VirutalListDataManager\<close>, which is not among the sources. The component uses
  its state (\<^verbatim>\<open>__getState\<close>), its update scheduler (\<^verbatim>\<open>__nextTickUpdate\<close>) and
  \<^verbatim>\<open>destroy\<close>. The scheduler holds at most one pending recompute; a destroyed
  manager is terminal.
\<close>

record VirutalListDataManager =
  dm_state :: VirutalListDataManagerState
  dm_pending :: bool
  dm_destroyed :: bool

text \<open>
  Modelled from the spec: \<^verbatim>\<open>__getState()\<close> returns the current state, and
  \<^verbatim>\<open>__nextTickUpdate()\<close> is the \<^verbatim>\<open>scheduleRecompute()\<close> of the spec's scheduler.
\<close>

definition getState :: "VirutalListDataManager \<Rightarrow> VirutalListDataManagerState" where
  "getState dm = dm_state dm"

text \<open>
  Modelled from the spec: \<^verbatim>\<open>scheduleRecompute()\<close> is a no-op if a recompute is
  already pending, and otherwise arms the deferred callback; after \<^verbatim>\<open>destroy\<close> a
  mutating call is a no-op.
\<close>

definition nextTickUpdate :: "VirutalListDataManager \<Rightarrow> VirutalListDataManager" where
  "nextTickUpdate dm =
     (if dm_destroyed dm \<or> dm_pending dm then dm else dm\<lparr>dm_pending := True\<rparr>)"

text \<open>
  Modelled from the spec: \<^verbatim>\<open>destroy()\<close> cancels any pending scheduled recompute and
  releases the manager; it is idempotent.
\<close>

definition destroy :: "VirutalListDataManager \<Rightarrow> VirutalListDataManager" where
  "destroy dm = dm\<lparr>dm_pending := False, dm_destroyed := True\<rparr>"

section \<open>The component\<close>

text \<open>
  The props that the methods below read. \<^verbatim>\<open>scrollDirection\<close> is optional with the
  default \<^verbatim>\<open>DIRECTION.VERTICAL\<close>, so it is always present when a method runs.
\<close>

record VirtualListProps =
  props_width :: size_value
  props_height :: size_value
  scrollDirection :: DIRECTION
  dataManager :: VirutalListDataManager

text \<open>
  The fields of a \<^verbatim>\<open>VirtualList\<close>. The style cache holds what \<^verbatim>\<open>normalizeStyle\<close>
  returns, a type the component does not look into. The manager is assigned in
  \<^verbatim>\<open>componentDidMount\<close> and undefined before.
\<close>

record 'st VirtualList =
  delayUpdateTimer :: "nat option"
  styleCache :: "int \<rightharpoonup> 'st"
  sizeAndPositionManager :: "SizeAndPositionManager option"
  needUpdate :: bool
  offset :: number
  props :: VirtualListProps

record ('a, 'st) VirutalListItemData =
  index :: int
  style :: 'st
  item :: "'a option"

definition new_VirtualList :: "VirtualListProps \<Rightarrow> 'st VirtualList" where
  "new_VirtualList p =
     \<lparr>delayUpdateTimer = None, styleCache = Map.empty, sizeAndPositionManager = None,
      needUpdate = True, offset = 0, props = p\<rparr>"

text \<open>
  \<^verbatim>\<open>componentDidMount\<close> creates the manager from the state of the data manager and
  registers \<^verbatim>\<open>update\<close> and \<^verbatim>\<open>onStateChange\<close> with it; the registration is what
  lets the deferred callback below run \<^verbatim>\<open>update\<close>.
\<close>

definition componentDidMount :: "'st VirtualList \<Rightarrow> 'st VirtualList" where
  "componentDidMount s =
     (let st = getState (dataManager (props s));
          estimatedSizeGetter = getEstimatedGetter (estimatedSize st) (itemSize st)
      in s\<lparr>sizeAndPositionManager :=
             Some (new_SizeAndPositionManager (itemCount st) (getItemSizeGetter (itemSize st))
                     estimatedSizeGetter)\<rparr>)"

definition updateVirutalListDataRange :: "'st VirtualList \<Rightarrow> 'st VirtualList" where
  "updateVirutalListDataRange s =
     (if \<not> needUpdate s then s
      else s\<lparr>props := (props s)\<lparr>dataManager := nextTickUpdate (dataManager (props s))\<rparr>,
             needUpdate := False\<rparr>)"

definition componentDidUpdate :: "'st VirtualList \<Rightarrow> 'st VirtualList" where
  "componentDidUpdate s = updateVirutalListDataRange s"

text \<open>
  \<^verbatim>\<open>clearTimeout\<close> acts on the timers of the host, the set of the armed timer ids.
\<close>

definition clearTimeout :: "nat \<Rightarrow> nat set \<Rightarrow> nat set" where
  "clearTimeout t timers = timers - {t}"

definition componentWillUnmount :: "'st VirtualList \<Rightarrow> nat set \<Rightarrow> 'st VirtualList \<times> nat set" where
  "componentWillUnmount s timers =
     (let timers' = (case delayUpdateTimer s of Some t \<Rightarrow> clearTimeout t timers | None \<Rightarrow> timers)
      in (s\<lparr>props := (props s)\<lparr>dataManager := destroy (dataManager (props s))\<rparr>\<rparr>, timers'))"

definition setScrollOffset :: "'st VirtualList \<Rightarrow> number \<Rightarrow> 'st VirtualList" where
  "setScrollOffset s scrollOffset =
     (if offset s \<noteq> scrollOffset
      then updateVirutalListDataRange (s\<lparr>offset := scrollOffset, needUpdate := True\<rparr>)
      else s)"

text \<open>
  \<^verbatim>\<open>recomputeSizes\<close> assigns the empty cache and then calls \<^verbatim>\<open>resetItem\<close> on the
  manager; on an undefined manager the call is a type error.
\<close>

definition recomputeSizes :: "'st VirtualList \<Rightarrow> int \<Rightarrow> error + 'st VirtualList" where
  "recomputeSizes s idx =
     (let s1 = s\<lparr>styleCache := Map.empty\<rparr>
      in (case sizeAndPositionManager s1 of
            None \<Rightarrow> Inl TypeError
          | Some m \<Rightarrow> Inr (s1\<lparr>sizeAndPositionManager := Some (resetItem m idx)\<rparr>)))"

text \<open>
  \<^verbatim>\<open>onStateChange\<close> gets the previous state and reads the next one from the data
  manager. Its last statement, \<^verbatim>\<open>forceUpdate()\<close>, asks the framework to render again;
  the render and the \<^verbatim>\<open>componentDidUpdate\<close> after it are steps of their own.
\<close>

definition onStateChange ::
  "'st VirtualList \<Rightarrow> VirutalListDataManagerState \<Rightarrow> error + 'st VirtualList" where
  "onStateChange s prevState =
     (let st = getState (dataManager (props s))
      in (case sizeAndPositionManager s of
            None \<Rightarrow> Inl TypeError
          | Some m \<Rightarrow>
              let m1 =
                    (if itemCount prevState \<noteq> itemCount st
                     then updateConfig m
                            \<lparr>cfg_itemCount = Some (itemCount st), cfg_itemSizeGetter = None,
                             cfg_estimatedSizeGetter = None\<rparr>
                     else m);
                  m2 =
                    (if itemSize prevState \<noteq> itemSize st \<or> estimatedSize prevState \<noteq> estimatedSize st
                     then updateConfig m1
                            \<lparr>cfg_itemCount = None,
                             cfg_itemSizeGetter = Some (getItemSizeGetter (itemSize st)),
                             cfg_estimatedSizeGetter =
                               Some (getEstimatedGetter (estimatedSize st) (itemSize st))\<rparr>
                     else m1)
              in recomputeSizes (s\<lparr>sizeAndPositionManager := Some m2\<rparr>) 0))"

definition getContainerSize :: "VirtualListProps \<Rightarrow> size_value" where
  "getContainerSize p =
     (case sizeProp (scrollDirection p) of Width \<Rightarrow> props_width p | Height \<Rightarrow> props_height p)"

text \<open>
  The two object literals of \<^verbatim>\<open>getStyle\<close>: the keys of \<^verbatim>\<open>STYLE_ITEM\<close>, then the
  computed position key, the computed size key, \<^verbatim>\<open>zIndex\<close> and, for a sticky item,
  \<^verbatim>\<open>position\<close>; a later key overrides an earlier one.
\<close>

definition itemStyle :: "DIRECTION \<Rightarrow> bool \<Rightarrow> SizeAndPosition \<Rightarrow> ItemStyle" where
  "itemStyle d sticky sizeAndPosition =
     (let base = StyleItem.extend STYLE_ITEM (ItemStyle.fields ZAuto);
          sz = sp_size sizeAndPosition
      in if sticky
         then (set_size (sizeProp d) sz (set_position (positionProp d) 0 base))
                \<lparr>zIndex := DEFAULT_ZINDEX, position := Sticky\<rparr>
         else (set_size (sizeProp d) sz
                 (set_position (positionProp d) (sp_offset sizeAndPosition) base))
                \<lparr>zIndex := ZAuto\<rparr>)"

text \<open>
  \<^verbatim>\<open>normalizeStyle\<close> of \<^verbatim>\<open>./utils\<close> is not among the sources; it is the first
  argument of every function that computes a style. An omitted \<^verbatim>\<open>sticky\<close> is false.
\<close>

definition getStyle ::
  "(ItemStyle \<Rightarrow> 'st) \<Rightarrow> 'st VirtualList \<Rightarrow> int \<Rightarrow> bool \<Rightarrow> error + ('st \<times> 'st VirtualList)" where
  "getStyle normalizeStyle s i sticky =
     (case styleCache s i of
        Some st \<Rightarrow> Inr (st, s)
      | None \<Rightarrow>
          (case sizeAndPositionManager s of
             None \<Rightarrow> Inl TypeError
           | Some m \<Rightarrow>
               (case getSizeAndPositionForIndex m i of
                  Inl e \<Rightarrow> Inl e
                | Inr (sizeAndPosition, m') \<Rightarrow>
                    let st = normalizeStyle (itemStyle (scrollDirection (props s)) sticky sizeAndPosition)
                    in Inr (st, s\<lparr>sizeAndPositionManager := Some m',
                                 styleCache := (styleCache s)(i \<mapsto> st)\<rparr>))))"

text \<open>\<^verbatim>\<open>data[i]\<close>: undefined outside the array.\<close>

definition data_at :: "'a list \<Rightarrow> int \<Rightarrow> 'a option" where
  "data_at data i = (if 0 \<le> i \<and> i < int (length data) then Some (data ! nat i) else None)"

text \<open>The \<^verbatim>\<open>forEach\<close> over the sticky indices.\<close>

fun push_sticky ::
  "(ItemStyle \<Rightarrow> 'st) \<Rightarrow> 'a list \<Rightarrow> int list \<Rightarrow> 'st VirtualList \<Rightarrow> ('a, 'st) VirutalListItemData list
     \<Rightarrow> error + (('a, 'st) VirutalListItemData list \<times> 'st VirtualList)" where
  "push_sticky normalizeStyle data [] s items = Inr (items, s)"
| "push_sticky normalizeStyle data (i # rest) s items =
     (case getStyle normalizeStyle s i True of
        Inl e \<Rightarrow> Inl e
      | Inr (st, s') \<Rightarrow>
          push_sticky normalizeStyle data rest s'
            (items @ [\<lparr>index = i, style = st, item = data_at data i\<rparr>]))"

text \<open>The \<^verbatim>\<open>for\<close> loop from \<^verbatim>\<open>start\<close> to \<^verbatim>\<open>end\<close>.\<close>

function push_range ::
  "(ItemStyle \<Rightarrow> 'st) \<Rightarrow> 'a list \<Rightarrow> int list option \<Rightarrow> int \<Rightarrow> int \<Rightarrow> 'st VirtualList
     \<Rightarrow> ('a, 'st) VirutalListItemData list
     \<Rightarrow> error + (('a, 'st) VirutalListItemData list \<times> 'st VirtualList)" where
  "push_range normalizeStyle data sticky i e s items =
     (if i \<le> e
      then
        (if (case sticky of Some xs \<Rightarrow> i \<in> set xs | None \<Rightarrow> False)
         then push_range normalizeStyle data sticky (i + 1) e s items
         else (case getStyle normalizeStyle s i False of
                 Inl err \<Rightarrow> Inl err
               | Inr (st, s') \<Rightarrow>
                   push_range normalizeStyle data sticky (i + 1) e s'
                     (items @ [\<lparr>index = i, style = st, item = data_at data i\<rparr>])))
      else Inr (items, s))"
  by pat_completeness auto
termination
  by (relation "measure (\<lambda>(nS, data, sticky, i, e, s, items). nat (e + 1 - i))") auto

declare push_range.simps [simp del]

definition update ::
  "(ItemStyle \<Rightarrow> 'st) \<Rightarrow> 'st VirtualList \<Rightarrow> 'a list
     \<Rightarrow> error + (('a, 'st) VirutalListItemData list \<times> 'st VirtualList)" where
  "update normalizeStyle s data =
     (let st = getState (dataManager (props s))
      in (case sizeAndPositionManager s of
            None \<Rightarrow> Inl TypeError
          | Some m \<Rightarrow>
              (case getVisibleRange m (getContainerSize (props s)) (offset s) (overscan st) of
                 Inl e \<Rightarrow> Inl e
               | Inr (r, m') \<Rightarrow>
                   let s1 = s\<lparr>sizeAndPositionManager := Some m'\<rparr>
                   in (case (range_start r, range_end r) of
                         (Some start, Some end') \<Rightarrow>
                           (case push_sticky normalizeStyle data
                                   (case stickyIndices st of Some xs \<Rightarrow> xs | None \<Rightarrow> []) s1 [] of
                              Inl e \<Rightarrow> Inl e
                            | Inr (items, s2) \<Rightarrow>
                                push_range normalizeStyle data (stickyIndices st) start end' s2 items)
                       | _ \<Rightarrow> Inr ([], s1)))))"

text \<open>The total size that \<^verbatim>\<open>render\<close> gives the inner view.\<close>

definition render_totalSize :: "'st VirtualList \<Rightarrow> number" where
  "render_totalSize s =
     (case sizeAndPositionManager s of Some m \<Rightarrow> getTotalSize m | None \<Rightarrow> 0)"

section \<open>The deferred recompute\<close>

text \<open>
  Modelled from the spec: when the deferred callback of the scheduler fires, a
  pending recompute runs the recompute step once on the state as of that time, and
  nothing is pending afterwards; with nothing pending the callback does nothing.
  The recompute step is the updater that the component registered,
  \<^verbatim>\<open>update\<close>, on the data that the manager holds. The world holds the component,
  the timers of the host and the results of the recomputes executed so far.
\<close>

record ('a, 'st) world =
  component :: "'st VirtualList"
  timers :: "nat set"
  executions :: "(error + ('a, 'st) VirutalListItemData list) list"

text \<open>Modelled from the spec: the firing callback takes the pending mark off.\<close>

definition clear_pending :: "'st VirtualList \<Rightarrow> 'st VirtualList" where
  "clear_pending s =
     s\<lparr>props := (props s)\<lparr>dataManager := (dataManager (props s))\<lparr>dm_pending := False\<rparr>\<rparr>\<rparr>"

text \<open>
  Modelled from the spec: one recompute gives the render list, or the error that \<^verbatim>\<open>update\<close> raised, and the
  component afterwards (as it was before, when \<^verbatim>\<open>update\<close> raised).
\<close>

definition recompute ::
  "(ItemStyle \<Rightarrow> 'st) \<Rightarrow> 'a list \<Rightarrow> 'st VirtualList
     \<Rightarrow> (error + ('a, 'st) VirutalListItemData list) \<times> 'st VirtualList" where
  "recompute normalizeStyle data s =
     (case update normalizeStyle s data of
        Inl e \<Rightarrow> (Inl e, s)
      | Inr (items, s1) \<Rightarrow> (Inr items, s1))"

definition fire :: "(ItemStyle \<Rightarrow> 'st) \<Rightarrow> 'a list \<Rightarrow> ('a, 'st) world \<Rightarrow> ('a, 'st) world" where
  "fire normalizeStyle data w =
     (if dm_pending (dataManager (props (component w)))
      then
        (case recompute normalizeStyle data (clear_pending (component w)) of
           (r, s1) \<Rightarrow> w\<lparr>component := s1, executions := executions w @ [r]\<rparr>)
      else w)"

text \<open>The two steps of the host that reach the component from outside.\<close>

definition scroll :: "number \<Rightarrow> ('a, 'st) world \<Rightarrow> ('a, 'st) world" where
  "scroll x w = w\<lparr>component := setScrollOffset (component w) x\<rparr>"

definition unmount :: "('a, 'st) world \<Rightarrow> ('a, 'st) world" where
  "unmount w =
     (case componentWillUnmount (component w) (timers w) of
        (s, ts) \<Rightarrow> w\<lparr>component := s, timers := ts\<rparr>)"

section \<open>Well-formed managers and sample lists\<close>

text \<open>
  A manager is in order when its item count is not negative and its table has a
  record for every index up to the last measured one.
\<close>

definition manager_ok :: "SizeAndPositionManager \<Rightarrow> bool" where
  "manager_ok m \<longleftrightarrow>
     0 \<le> m_itemCount m
     \<and> (\<forall>k \<in> set [0..m_lastMeasuredIndex m]. m_itemSizeAndPositionData m k \<noteq> None)"

text \<open>A list is in order for \<open>n\<close> items when it is mounted on such a manager of \<open>n\<close> items.\<close>

definition list_ok :: "int \<Rightarrow> 'st VirtualList \<Rightarrow> bool" where
  "list_ok n s \<longleftrightarrow>
     (case sizeAndPositionManager s of None \<Rightarrow> False | Some m \<Rightarrow> manager_ok m \<and> m_itemCount m = n)"

text \<open>
  A cache agrees with a set of sticky indices when each style in it is the sticky
  style of its index if the index is in the set, and the normal style otherwise.
\<close>

abbreviation cache_agrees ::
  "(ItemStyle \<Rightarrow> 'st) \<Rightarrow> DIRECTION \<Rightarrow> int set \<Rightarrow> (int \<rightharpoonup> 'st) \<Rightarrow> bool" where
  "cache_agrees nS d S c \<equiv> (\<forall>i st. c i = Some st \<longrightarrow> (\<exists>sp. st = nS (itemStyle d (i \<in> S) sp)))"

text \<open>
  A list of five items of the fixed size 20 in a container of 320 by 50, with the
  item 2 sticky, mounted in the direction given.
\<close>

definition sample_state :: VirutalListDataManagerState where
  "sample_state =
     \<lparr>itemCount = 5, itemSize = Fixed 20, estimatedSize = 20, overscan = 0,
      stickyIndices = Some [2]\<rparr>"

definition sample_props :: "DIRECTION \<Rightarrow> VirtualListProps" where
  "sample_props d =
     \<lparr>props_width = Num 320, props_height = Num 50, scrollDirection = d,
      dataManager = \<lparr>dm_state = sample_state, dm_pending = False, dm_destroyed = False\<rparr>\<rparr>"

definition sample_list :: "DIRECTION \<Rightarrow> ItemStyle VirtualList" where
  "sample_list d = componentDidMount (new_VirtualList (sample_props d))"

definition sample_world :: "(char, ItemStyle) world" where
  "sample_world = \<lparr>component = sample_list VERTICAL, timers = {}, executions = []\<rparr>"

text \<open>The same list in a container of extent 0, and the same container with no items.\<close>

definition flat_list :: "ItemStyle VirtualList" where
  "flat_list =
     componentDidMount (new_VirtualList ((sample_props VERTICAL)\<lparr>props_height := Num 0\<rparr>))"

definition no_items_list :: "ItemStyle VirtualList" where
  "no_items_list =
     componentDidMount
       (new_VirtualList
          ((sample_props VERTICAL)
             \<lparr>dataManager :=
                \<lparr>dm_state = sample_state\<lparr>itemCount := 0\<rparr>, dm_pending = False,
                 dm_destroyed = False\<rparr>\<rparr>))"

text \<open>A world whose component holds the armed timer 7.\<close>

definition timer_world :: "(char, ItemStyle) world" where
  "timer_world =
     \<lparr>component = (sample_list VERTICAL)\<lparr>delayUpdateTimer := Some 7\<rparr>, timers = {3, 7},
      executions = []\<rparr>"

text \<open>The sample list scrolled to the offset 65.\<close>

definition scrolled_list :: "ItemStyle VirtualList" where
  "scrolled_list = setScrollOffset (sample_list VERTICAL) 65"

text \<open>The sample list after \<^verbatim>\<open>getStyle(2)\<close>, which caches the normal style of the item 2.\<close>

definition cached_list :: "ItemStyle VirtualList" where
  "cached_list =
     (case getStyle (\<lambda>x. x) (sample_list VERTICAL) 2 False of
        Inr (st, s) \<Rightarrow> s
      | Inl e \<Rightarrow> sample_list VERTICAL)"

text \<open>A list after the state of its data manager was replaced from outside.\<close>

definition with_state :: "VirutalListDataManagerState \<Rightarrow> 'st VirtualList \<Rightarrow> 'st VirtualList" where
  "with_state st s = s\<lparr>props := (props s)\<lparr>dataManager := (dataManager (props s))\<lparr>dm_state := st\<rparr>\<rparr>\<rparr>"

text \<open>The manager of the sample list when mounted, and after it measured the items up to 2.\<close>

definition sample_manager :: SizeAndPositionManager where
  "sample_manager =
     new_SizeAndPositionManager 5 (getItemSizeGetter (Fixed 20)) (getEstimatedGetter 20 (Fixed 20))"

definition cached_manager :: SizeAndPositionManager where
  "cached_manager =
     (case getSizeAndPositionForIndex sample_manager 2 of Inr (r, m) \<Rightarrow> m | Inl e \<Rightarrow> sample_manager)"

section \<open>The manager keeps itself in order\<close>

lemma fill_table_step:
  "k \<le> i \<Longrightarrow> fill_table m k i off tab =
     fill_table m (k + 1) i (off + size_at m k)
       (tab(k \<mapsto> \<lparr>sp_offset = off, sp_size = size_at m k\<rparr>))"
  by (subst fill_table.simps) simp

lemma fill_table_done:
  "\<not> k \<le> i \<Longrightarrow> fill_table m k i off tab = tab"
  by (subst fill_table.simps) simp

lemma fill_table_below:
  "j < k \<Longrightarrow> fill_table m k i off tab j = tab j"
proof (induction m k i off tab rule: fill_table.induct)
  case (1 m k i off tab)
  show ?case
  proof (cases "k \<le> i")
    case True
    from 1(2) have "j < k + 1" by simp
    from 1(1) [OF True this]
    have "fill_table m k i off tab j = (tab(k \<mapsto> \<lparr>sp_offset = off, sp_size = size_at m k\<rparr>)) j"
      by (simp only: fill_table_step [OF True])
    also from 1(2) have "\<dots> = tab j" by simp
    finally show ?thesis .
  next
    case False
    then show ?thesis by (simp add: fill_table_done)
  qed
qed

lemma fill_table_keeps:
  "tab j \<noteq> None \<Longrightarrow> fill_table m k i off tab j \<noteq> None"
proof (induction m k i off tab rule: fill_table.induct)
  case (1 m k i off tab)
  show ?case
  proof (cases "k \<le> i")
    case True
    from 1(2) have "(tab(k \<mapsto> \<lparr>sp_offset = off, sp_size = size_at m k\<rparr>)) j \<noteq> None"
      by simp
    from 1(1) [OF True this] show ?thesis
      by (simp only: fill_table_step [OF True] not_False_eq_True)
  next
    case False
    with 1(2) show ?thesis by (simp add: fill_table_done)
  qed
qed

lemma fill_table_fills:
  "k \<le> j \<Longrightarrow> j \<le> i \<Longrightarrow> fill_table m k i off tab j \<noteq> None"
proof (induction m k i off tab rule: fill_table.induct)
  case (1 m k i off tab)
  from 1(2,3) have ki: "k \<le> i" by simp
  show ?case
  proof (cases "j = k")
    case True
    have "(tab(k \<mapsto> \<lparr>sp_offset = off, sp_size = size_at m k\<rparr>)) j \<noteq> None"
      using True by simp
    then have "fill_table m (k + 1) i (off + size_at m k)
       (tab(k \<mapsto> \<lparr>sp_offset = off, sp_size = size_at m k\<rparr>)) j \<noteq> None"
      by (rule fill_table_keeps)
    then show ?thesis by (simp only: fill_table_step [OF ki] not_False_eq_True)
  next
    case False
    with 1(2) have "k + 1 \<le> j" by simp
    from 1(1) [OF ki this 1(3)] show ?thesis
      by (simp only: fill_table_step [OF ki] not_False_eq_True)
  qed
qed

lemma manager_ok_iff:
  "manager_ok m \<longleftrightarrow>
     0 \<le> m_itemCount m
     \<and> (\<forall>k. 0 \<le> k \<and> k \<le> m_lastMeasuredIndex m \<longrightarrow> m_itemSizeAndPositionData m k \<noteq> None)"
  by (auto simp: manager_ok_def)

lemma getSizeAndPositionForIndex_ok:
  assumes ok: "manager_ok m" and i: "0 \<le> i" "i < m_itemCount m"
  shows "\<exists>r m'. getSizeAndPositionForIndex m i = Inr (r, m') \<and> manager_ok m'
           \<and> m_itemCount m' = m_itemCount m"
proof (cases "m_lastMeasuredIndex m < i")
  case True
  define last where "last = getSizeAndPositionOfLastMeasuredItem m"
  define tab where "tab = fill_table m (m_lastMeasuredIndex m + 1) i (sp_offset last + sp_size last)
                       (m_itemSizeAndPositionData m)"
  define m' where "m' = m\<lparr>m_itemSizeAndPositionData := tab,
                   m_lastMeasuredIndex :=
                     (if m_itemSizeGetter m i \<noteq> None then i else m_lastMeasuredIndex m)\<rparr>"
  have filled: "tab k \<noteq> None" if "0 \<le> k" "k \<le> i" for k
  proof (cases "k \<le> m_lastMeasuredIndex m")
    case True
    with ok that have "m_itemSizeAndPositionData m k \<noteq> None" by (simp add: manager_ok_iff)
    then show ?thesis unfolding tab_def by (rule fill_table_keeps)
  next
    case False
    with that show ?thesis unfolding tab_def by (intro fill_table_fills) simp_all
  qed
  from filled [of i] i obtain r where r: "tab i = Some r" by auto
  have "getSizeAndPositionForIndex m i = Inr (r, m')"
    using True i r by (simp add: getSizeAndPositionForIndex_def Let_def m'_def tab_def last_def)
  moreover have "manager_ok m'"
    using ok True filled by (auto simp: manager_ok_iff m'_def)
  moreover have "m_itemCount m' = m_itemCount m" by (simp add: m'_def)
  ultimately show ?thesis by blast
next
  case False
  with ok i obtain r where r: "m_itemSizeAndPositionData m i = Some r"
    by (auto simp: manager_ok_iff)
  have "getSizeAndPositionForIndex m i = Inr (r, m)"
    using False i r by (simp add: getSizeAndPositionForIndex_def Let_def)
  with ok show ?thesis by blast
qed

lemma find_start_ok:
  "m_itemCount m = n \<Longrightarrow> manager_ok m \<Longrightarrow> 0 \<le> i \<Longrightarrow>
   \<exists>j m'. find_start n cur m i = Inr (j, m') \<and> manager_ok m' \<and> m_itemCount m' = n \<and> i \<le> j"
proof (induction n cur m i rule: find_start.induct)
  case (1 n cur m i)
  show ?case
  proof (cases "n \<le> i")
    case True
    with 1(2,3) show ?thesis by (simp add: find_start.simps [of n cur m i])
  next
    case False
    with 1(2-4) getSizeAndPositionForIndex_ok [of m i]
    obtain r m' where g: "getSizeAndPositionForIndex m i = Inr (r, m')"
      and ok': "manager_ok m'" and n': "m_itemCount m' = n"
      by auto
    show ?thesis
    proof (cases "cur < sp_offset r + sp_size r")
      case True
      with False g ok' n' show ?thesis by (simp add: find_start.simps [of n cur m i])
    next
      case nlt: False
      from 1(1) [OF False g refl nlt n' ok'] 1(4)
      obtain j m'' where "find_start n cur m' (i + 1) = Inr (j, m'')" "manager_ok m''"
        "m_itemCount m'' = n" "i + 1 \<le> j" by auto
      with False g nlt show ?thesis by (simp add: find_start.simps [of n cur m i])
    qed
  qed
qed

lemma find_end_ok:
  "m_itemCount m = n \<Longrightarrow> manager_ok m \<Longrightarrow> 0 \<le> i \<Longrightarrow>
   \<exists>j m'. find_end n hi m i = Inr (j, m') \<and> manager_ok m' \<and> m_itemCount m' = n"
proof (induction n hi m i rule: find_end.induct)
  case (1 n hi m i)
  show ?case
  proof (cases "n \<le> i + 1")
    case True
    with 1(2,3) show ?thesis by (simp add: find_end.simps [of n hi m i])
  next
    case False
    with 1(2-4) getSizeAndPositionForIndex_ok [of m "i + 1"]
    obtain r m' where g: "getSizeAndPositionForIndex m (i + 1) = Inr (r, m')"
      and ok': "manager_ok m'" and n': "m_itemCount m' = n"
      by auto
    show ?thesis
    proof (cases "sp_offset r < hi")
      case nlt: False
      with False g ok' n' show ?thesis by (simp add: find_end.simps [of n hi m i])
    next
      case True
      from 1(1) [OF False g refl True n' ok'] 1(4)
      obtain j m'' where "find_end n hi m' (i + 1) = Inr (j, m'')" "manager_ok m''"
        "m_itemCount m'' = n" by auto
      with False g True show ?thesis by (simp add: find_end.simps [of n hi m i])
    qed
  qed
qed

lemma getVisibleRange_ok:
  assumes ok: "manager_ok m"
  shows "\<exists>r m'. getVisibleRange m (Num c) cur ov = Inr (r, m') \<and> manager_ok m'
           \<and> m_itemCount m' = m_itemCount m
           \<and> (r = empty_range
              \<or> (\<exists>a b. r = \<lparr>range_start = Some a, range_end = Some b\<rparr>
                     \<and> 0 \<le> a \<and> b < m_itemCount m))"
proof (cases "m_itemCount m = 0 \<or> c \<le> 0")
  case True
  with ok show ?thesis by (auto simp: getVisibleRange_def)
next
  case False
  from find_start_ok [OF refl ok, of 0 cur]
  obtain s0 m1 where fs: "find_start (m_itemCount m) cur m 0 = Inr (s0, m1)"
    and ok1: "manager_ok m1" and n1: "m_itemCount m1 = m_itemCount m" and s0: "0 \<le> s0"
    by auto
  from find_end_ok [OF n1 ok1 s0, of "cur + c"]
  obtain e0 m2 where fe: "find_end (m_itemCount m) (cur + c) m1 s0 = Inr (e0, m2)"
    and ok2: "manager_ok m2" and n2: "m_itemCount m2 = m_itemCount m"
    by auto
  from ok False have pos: "0 < m_itemCount m" by (auto simp: manager_ok_iff)
  have "getVisibleRange m (Num c) cur ov =
          Inr (\<lparr>range_start = Some (clamp_index (m_itemCount m) (s0 - ov)),
                range_end = Some (clamp_index (m_itemCount m) (e0 + ov))\<rparr>, m2)"
    using False fs fe by (simp add: getVisibleRange_def)
  moreover have "0 \<le> clamp_index (m_itemCount m) (s0 - ov)"
    by (simp add: clamp_index_def)
  moreover have "clamp_index (m_itemCount m) (e0 + ov) < m_itemCount m"
    using pos by (simp add: clamp_index_def)
  ultimately show ?thesis using ok2 n2 by blast
qed

section \<open>Styles and the two loops of the update\<close>

lemma getStyle_hit:
  "styleCache s i = Some st \<Longrightarrow> getStyle nS s i sticky = Inr (st, s)"
  by (simp add: getStyle_def)

lemma getStyle_miss:
  "styleCache s i = None \<Longrightarrow> sizeAndPositionManager s = Some m
   \<Longrightarrow> getSizeAndPositionForIndex m i = Inr (sp, m')
   \<Longrightarrow> getStyle nS s i sticky =
         Inr (nS (itemStyle (scrollDirection (props s)) sticky sp),
              s\<lparr>sizeAndPositionManager := Some m',
                styleCache := (styleCache s)(i \<mapsto> nS (itemStyle (scrollDirection (props s)) sticky sp))\<rparr>)"
  by (simp add: getStyle_def Let_def)

lemma list_okE:
  assumes "list_ok n s"
  obtains m where "sizeAndPositionManager s = Some m" "manager_ok m" "m_itemCount m = n"
  using assms by (auto simp: list_ok_def split: option.splits)

lemma getStyle_total:
  assumes ok: "list_ok n s" and i: "0 \<le> i" "i < n"
  shows "\<exists>st s'. getStyle nS s i b = Inr (st, s') \<and> list_ok n s'
           \<and> styleCache s' = (styleCache s)(i \<mapsto> st)
           \<and> props s' = props s \<and> offset s' = offset s
           \<and> (styleCache s i = None \<longrightarrow>
                (\<exists>sp. st = nS (itemStyle (scrollDirection (props s)) b sp)))"
proof (cases "styleCache s i")
  case (Some st)
  then have "(styleCache s)(i \<mapsto> st) = styleCache s" by (simp add: fun_upd_idem)
  with Some ok show ?thesis by (simp add: getStyle_hit)
next
  case None
  from ok obtain m where m: "sizeAndPositionManager s = Some m" "manager_ok m" "m_itemCount m = n"
    by (rule list_okE)
  from getSizeAndPositionForIndex_ok [of m i] m i
  obtain sp m' where g: "getSizeAndPositionForIndex m i = Inr (sp, m')"
    and ok': "manager_ok m'" and n': "m_itemCount m' = n" by auto
  let ?st = "nS (itemStyle (scrollDirection (props s)) b sp)"
  let ?s' = "s\<lparr>sizeAndPositionManager := Some m', styleCache := (styleCache s)(i \<mapsto> ?st)\<rparr>"
  have "getStyle nS s i b = Inr (?st, ?s')" using None m(1) g by (rule getStyle_miss)
  moreover have "list_ok n ?s'" using ok' n' by (simp add: list_ok_def)
  ultimately show ?thesis by auto
qed

lemma push_sticky_total:
  "list_ok n s \<Longrightarrow> \<forall>i \<in> set xs. 0 \<le> i \<and> i < n \<Longrightarrow>
   \<exists>new s'. push_sticky nS data xs s items = Inr (items @ new, s') \<and> list_ok n s'
     \<and> map index new = xs
     \<and> (\<forall>it \<in> set new. item it = data_at data (index it)
                        \<and> styleCache s' (index it) = Some (style it))
     \<and> styleCache s \<subseteq>\<^sub>m styleCache s'
     \<and> props s' = props s \<and> offset s' = offset s"
proof (induction xs arbitrary: s items)
  case Nil
  then show ?case by simp
next
  case (Cons i xs)
  from Cons.prems have i: "0 \<le> i" "i < n" and xs: "\<forall>i \<in> set xs. 0 \<le> i \<and> i < n" by simp_all
  from getStyle_total [OF Cons.prems(1) i, of nS True]
  obtain st s1 where g: "getStyle nS s i True = Inr (st, s1)" and ok1: "list_ok n s1"
    and c1: "styleCache s1 = (styleCache s)(i \<mapsto> st)"
    and p1: "props s1 = props s" "offset s1 = offset s"
    and miss: "styleCache s i = None \<or> styleCache s i = Some st"
    by (cases "styleCache s i") (auto simp: getStyle_hit)
  let ?it = "\<lparr>index = i, style = st, item = data_at data i\<rparr>"
  from Cons.IH [OF ok1 xs, of "items @ [?it]"]
  obtain new s' where r: "push_sticky nS data xs s1 (items @ [?it]) = Inr ((items @ [?it]) @ new, s')"
    and ok': "list_ok n s'" and idx: "map index new = xs"
    and its: "\<forall>it \<in> set new. item it = data_at data (index it)
                        \<and> styleCache s' (index it) = Some (style it)"
    and le: "styleCache s1 \<subseteq>\<^sub>m styleCache s'"
    and p': "props s' = props s1" "offset s' = offset s1"
    by blast
  have le0: "styleCache s \<subseteq>\<^sub>m styleCache s1"
    using miss c1 by (auto simp: map_le_def)
  have "styleCache s1 i = Some st" by (simp add: c1)
  with le have here: "styleCache s' i = Some st" by (auto simp: map_le_def dom_def)
  have "push_sticky nS data (i # xs) s items = Inr (items @ (?it # new), s')"
    using g r by simp
  moreover have "map index (?it # new) = i # xs" using idx by simp
  moreover have "\<forall>it \<in> set (?it # new). item it = data_at data (index it)
                        \<and> styleCache s' (index it) = Some (style it)"
    using its here by simp
  moreover have "styleCache s \<subseteq>\<^sub>m styleCache s'" using le0 le by (rule map_le_trans)
  moreover have "props s' = props s" "offset s' = offset s" using p' p1 by simp_all
  moreover note ok'
  ultimately show ?case
    by - (intro exI [of _ "?it # new"] exI [of _ s'] conjI; assumption)
qed

lemma upto_step: "i \<le> e \<Longrightarrow> [i..e] = i # [i + 1..e]"
  by (rule upto_rec1)

lemma push_range_total:
  "list_ok n s \<Longrightarrow> 0 \<le> i \<Longrightarrow> e < n \<Longrightarrow>
   \<exists>new s'. push_range nS data sticky i e s items = Inr (items @ new, s') \<and> list_ok n s'
     \<and> map index new = filter (\<lambda>j. \<not> (case sticky of Some xs \<Rightarrow> j \<in> set xs | None \<Rightarrow> False)) [i..e]
     \<and> (\<forall>it \<in> set new. item it = data_at data (index it)
                        \<and> styleCache s' (index it) = Some (style it))
     \<and> styleCache s \<subseteq>\<^sub>m styleCache s'
     \<and> props s' = props s \<and> offset s' = offset s"
proof (induction nS data sticky i e s items rule: push_range.induct)
  case (1 nS data sticky i e s items)
  let ?skip = "case sticky of Some xs \<Rightarrow> i \<in> set xs | None \<Rightarrow> False"
  show ?case
  proof (cases "i \<le> e")
    case False
    then have "push_range nS data sticky i e s items = Inr (items @ [], s)"
      by (subst push_range.simps) simp
    moreover from False have "map index ([] :: ('b, 'a) VirutalListItemData list) =
        filter (\<lambda>j. \<not> (case sticky of Some xs \<Rightarrow> j \<in> set xs | None \<Rightarrow> False)) [i..e]" by simp
    moreover have "\<forall>it \<in> set ([] :: ('b, 'a) VirutalListItemData list). item it = data_at data (index it)
                        \<and> styleCache s (index it) = Some (style it)" by simp
    moreover have "styleCache s \<subseteq>\<^sub>m styleCache s" by simp
    moreover have "props s = props s" "offset s = offset s" by simp_all
    moreover note 1(3)
    ultimately show ?thesis
      by - (intro exI [of _ "[]"] exI [of _ s] conjI; assumption)
  next
    case True
    note ie = True
    from 1(4) have i1: "0 \<le> i + 1" by simp
    show ?thesis
    proof (cases ?skip)
      case True
      from 1(1) [OF ie True 1(3) i1 1(5)]
      obtain new s' where r: "push_range nS data sticky (i + 1) e s items = Inr (items @ new, s')"
        and rest: "list_ok n s'"
          "map index new = filter (\<lambda>j. \<not> (case sticky of Some xs \<Rightarrow> j \<in> set xs | None \<Rightarrow> False)) [i + 1..e]"
          "\<forall>it \<in> set new. item it = data_at data (index it)
                        \<and> styleCache s' (index it) = Some (style it)"
          "styleCache s \<subseteq>\<^sub>m styleCache s'" "props s' = props s" "offset s' = offset s"
        by blast
      have "push_range nS data sticky i e s items = Inr (items @ new, s')"
        using ie True r by (subst push_range.simps) simp
      moreover have "map index new = filter (\<lambda>j. \<not> (case sticky of Some xs \<Rightarrow> j \<in> set xs | None \<Rightarrow> False)) [i..e]"
        using rest(2) True by (simp add: upto_step [OF ie])
      moreover note rest(1,3-)
      ultimately show ?thesis
        by - (intro exI [of _ new] exI [of _ s'] conjI; assumption)
    next
      case False
      from ie 1(5) have "i < n" by simp
      from getStyle_total [OF 1(3) 1(4) this, of nS False]
      obtain st s1 where g: "getStyle nS s i False = Inr (st, s1)" and ok1: "list_ok n s1"
        and c1: "styleCache s1 = (styleCache s)(i \<mapsto> st)"
        and p1: "props s1 = props s" "offset s1 = offset s"
        and miss: "styleCache s i = None \<or> styleCache s i = Some st"
        by (cases "styleCache s i") (auto simp: getStyle_hit)
      let ?it = "\<lparr>index = i, style = st, item = data_at data i\<rparr>"
      from 1(2) [OF ie False g refl ok1 i1 1(5)]
      obtain new s' where r: "push_range nS data sticky (i + 1) e s1 (items @ [?it]) = Inr ((items @ [?it]) @ new, s')"
        and ok': "list_ok n s'"
        and idx: "map index new = filter (\<lambda>j. \<not> (case sticky of Some xs \<Rightarrow> j \<in> set xs | None \<Rightarrow> False)) [i + 1..e]"
        and its: "\<forall>it \<in> set new. item it = data_at data (index it)
                        \<and> styleCache s' (index it) = Some (style it)"
        and le: "styleCache s1 \<subseteq>\<^sub>m styleCache s'"
        and p': "props s' = props s1" "offset s' = offset s1"
        by blast
      have le0: "styleCache s \<subseteq>\<^sub>m styleCache s1"
        using miss c1 by (auto simp: map_le_def)
      have "styleCache s1 i = Some st" by (simp add: c1)
      with le have here: "styleCache s' i = Some st" by (auto simp: map_le_def dom_def)
      have "push_range nS data sticky i e s items = Inr (items @ (?it # new), s')"
        using ie False g r by (subst push_range.simps) simp
      moreover have "map index (?it # new) = filter (\<lambda>j. \<not> (case sticky of Some xs \<Rightarrow> j \<in> set xs | None \<Rightarrow> False)) [i..e]"
        using idx False by (simp add: upto_step [OF ie])
      moreover have "\<forall>it \<in> set (?it # new). item it = data_at data (index it)
                        \<and> styleCache s' (index it) = Some (style it)"
        using its here by simp
      moreover have "styleCache s \<subseteq>\<^sub>m styleCache s'" using le0 le by (rule map_le_trans)
      moreover have "props s' = props s" "offset s' = offset s" using p' p1 by simp_all
      moreover note ok'
      ultimately show ?thesis
        by - (intro exI [of _ "?it # new"] exI [of _ s'] conjI; assumption)
    qed
  qed
qed

section \<open>Evaluating the sample lists\<close>

lemmas sample_defs = sample_list_def sample_props_def sample_state_def componentDidMount_def
  new_VirtualList_def new_SizeAndPositionManager_def getState_def getItemSizeGetter_def
  getEstimatedGetter_def setScrollOffset_def updateVirutalListDataRange_def nextTickUpdate_def
  scrolled_list_def

lemmas manager_defs = getVisibleRange_def find_start.simps find_end.simps
  getSizeAndPositionForIndex_def getSizeAndPositionOfLastMeasuredItem_def fill_table.simps
  size_at_def clamp_index_def getContainerSize_def

lemmas world_defs = sample_world_def timer_world_def scroll_def unmount_def componentWillUnmount_def
  clearTimeout_def destroy_def fire_def clear_pending_def

lemmas update_defs = update_def push_range.simps data_at_def getStyle_def itemStyle_def
  set_size_def set_position_def STYLE_ITEM_def StyleItem.extend_def ItemStyle.fields_def empty_range_def
  get_size_def get_position_def

lemmas cached_defs = cached_list_def cached_manager_def sample_manager_def with_state_def

section \<open>The render list\<close>

lemma getStyle_agrees:
  assumes g: "getStyle nS s i b = Inr (st, s')"
    and a: "cache_agrees nS (scrollDirection (props s)) S (styleCache s)"
    and b: "(i \<in> S) = b"
  shows "cache_agrees nS (scrollDirection (props s')) S (styleCache s') \<and> props s' = props s"
proof (cases "styleCache s i")
  case (Some st0)
  with g have "s' = s" by (simp add: getStyle_def)
  with a show ?thesis by simp
next
  case None
  with g obtain m sp m' where m: "sizeAndPositionManager s = Some m"
    and sp: "getSizeAndPositionForIndex m i = Inr (sp, m')"
    by (auto simp: getStyle_def split: option.splits sum.splits)
  from getStyle_miss [OF None m sp, of nS b] g
  have s': "s' = s\<lparr>sizeAndPositionManager := Some m',
                styleCache := (styleCache s)(i \<mapsto> nS (itemStyle (scrollDirection (props s)) b sp))\<rparr>"
    by simp
  show ?thesis using a b by (auto simp: s')
qed

lemma push_sticky_agrees:
  "push_sticky nS data xs s items = Inr (items', s') \<Longrightarrow>
   cache_agrees nS (scrollDirection (props s)) S (styleCache s) \<Longrightarrow> set xs \<subseteq> S \<Longrightarrow>
   cache_agrees nS (scrollDirection (props s')) S (styleCache s') \<and> props s' = props s"
proof (induction xs arbitrary: s items)
  case Nil
  then show ?case by simp
next
  case (Cons i xs)
  from Cons.prems(1) obtain st s1 where g: "getStyle nS s i True = Inr (st, s1)"
    and r: "push_sticky nS data xs s1 (items @ [\<lparr>index = i, style = st, item = data_at data i\<rparr>]) = Inr (items', s')"
    by (auto split: sum.splits)
  from Cons.prems(3) have "(i \<in> S) = True" by simp
  from getStyle_agrees [OF g Cons.prems(2) this]
  have a1: "cache_agrees nS (scrollDirection (props s1)) S (styleCache s1)" and p1: "props s1 = props s"
    by blast+
  from Cons.prems(3) have "set xs \<subseteq> S" by simp
  from Cons.IH [OF r a1 this]
  have x: "cache_agrees nS (scrollDirection (props s')) S (styleCache s')"
    and y: "props s' = props s1" by blast+
  from y p1 have "props s' = props s" by simp
  with x show ?case by (rule conjI)
qed

lemma push_range_agrees:
  "push_range nS data sticky i e s items = Inr (items', s') \<Longrightarrow>
   cache_agrees nS (scrollDirection (props s)) S (styleCache s) \<Longrightarrow>
   S = (case sticky of Some xs \<Rightarrow> set xs | None \<Rightarrow> {}) \<Longrightarrow>
   cache_agrees nS (scrollDirection (props s')) S (styleCache s') \<and> props s' = props s"
proof (induction nS data sticky i e s items rule: push_range.induct)
  case (1 nS data sticky i e s items)
  let ?skip = "case sticky of Some xs \<Rightarrow> i \<in> set xs | None \<Rightarrow> False"
  have skip: "?skip = (i \<in> S)" using 1(5) by (simp split: option.splits)
  show ?case
  proof (cases "i \<le> e")
    case False
    with 1(3) have "s' = s" by (subst (asm) push_range.simps) simp
    with 1(4) show ?thesis by simp
  next
    case ie: True
    show ?thesis
    proof (cases ?skip)
      case True
      with ie 1(3) have "push_range nS data sticky (i + 1) e s items = Inr (items', s')"
        by (subst (asm) push_range.simps) simp
      from 1(1) [OF ie True this 1(4) 1(5)] show ?thesis .
    next
      case False
      with ie 1(3) obtain st s1 where g: "getStyle nS s i False = Inr (st, s1)"
        and r: "push_range nS data sticky (i + 1) e s1
                  (items @ [\<lparr>index = i, style = st, item = data_at data i\<rparr>]) = Inr (items', s')"
        by (subst (asm) push_range.simps) (auto split: sum.splits)
      from False skip have "(i \<in> S) = False" by simp
      from getStyle_agrees [OF g 1(4) this]
      have a1: "cache_agrees nS (scrollDirection (props s1)) S (styleCache s1)"
        and p1: "props s1 = props s" by blast+
      from 1(2) [OF ie False g refl r a1 1(5)]
      have x: "cache_agrees nS (scrollDirection (props s')) S (styleCache s')"
        and y: "props s' = props s1" by blast+
      from y p1 have "props s' = props s" by simp
      with x show ?thesis by (rule conjI)
    qed
  qed
qed

lemma sticky_filter:
  "(\<lambda>j. \<not> (case sticky of Some xs \<Rightarrow> j \<in> set xs | None \<Rightarrow> False)) =
   (\<lambda>j. j \<notin> set (case sticky of Some xs \<Rightarrow> xs | None \<Rightarrow> []))"
  by (cases sticky) simp_all

lemma update_empty_range:
  "sizeAndPositionManager s = Some m \<Longrightarrow>
   getVisibleRange m (getContainerSize (props s)) (offset s)
     (overscan (getState (dataManager (props s)))) = Inr (empty_range, m') \<Longrightarrow>
   update nS s data = Inr ([], s\<lparr>sizeAndPositionManager := Some m'\<rparr>)"
  by (simp add: update_def empty_range_def Let_def)

lemma update_range:
  "sizeAndPositionManager s = Some m \<Longrightarrow>
   getVisibleRange m (getContainerSize (props s)) (offset s)
     (overscan (getState (dataManager (props s)))) =
       Inr (\<lparr>range_start = Some a, range_end = Some b\<rparr>, m') \<Longrightarrow>
   update nS s data =
     (case push_sticky nS data
             (case stickyIndices (getState (dataManager (props s))) of Some xs \<Rightarrow> xs | None \<Rightarrow> [])
             (s\<lparr>sizeAndPositionManager := Some m'\<rparr>) [] of
        Inl e \<Rightarrow> Inl e
      | Inr (items, s2) \<Rightarrow>
          push_range nS data (stickyIndices (getState (dataManager (props s)))) a b s2 items)"
  by (simp add: update_def Let_def)

lemma distinct_render:
  "distinct xs \<Longrightarrow> distinct (xs @ filter (\<lambda>j. j \<notin> set xs) [a..b])"
  by auto

text \<open>
  Claim C1, as amended. On a mounted list whose manager is in order, whose container
  size along the scroll axis is a number and whose sticky indices are indices of the
  list, \<^verbatim>\<open>update\<close> returns a render list. When the visible range is empty the list
  is empty, the sticky items left out as well. When the visible range is \<open>[a, b]\<close>,
  the indices of the list are the sticky indices, first and in their given order,
  each as often as it is given, followed by the indices from \<open>a\<close> to \<open>b\<close> in
  increasing order without the sticky ones, whether or not a sticky index lies in
  \<open>[a, b]\<close>; no index occurs twice when no sticky index is given twice. Each entry
  holds \<^verbatim>\<open>data[index]\<close> and the style that the cache holds for its index
  afterwards; starting from an empty cache, that is the sticky style for a sticky
  index and the normal style for any other.
\<close>

theorem update_render_list:
  fixes s :: "'st VirtualList" and data :: "'a list"
  assumes m: "sizeAndPositionManager s = Some m" and ok: "manager_ok m"
    and c: "getContainerSize (props s) = Num c"
    and stk: "stk = (case stickyIndices (getState (dataManager (props s))) of Some xs \<Rightarrow> xs | None \<Rightarrow> [])"
    and inr: "\<forall>i \<in> set stk. 0 \<le> i \<and> i < m_itemCount m"
  shows "\<exists>r m' items s'.
           getVisibleRange m (Num c) (offset s) (overscan (getState (dataManager (props s)))) = Inr (r, m')
           \<and> update nS s data = Inr (items, s')
           \<and> (r = empty_range \<longrightarrow> items = [])
           \<and> (\<forall>a b. r = \<lparr>range_start = Some a, range_end = Some b\<rparr> \<longrightarrow>
                 map index items = stk @ filter (\<lambda>j. j \<notin> set stk) [a..b])
           \<and> (\<forall>it \<in> set items. item it = data_at data (index it)
                                 \<and> styleCache s' (index it) = Some (style it))
           \<and> (distinct stk \<longrightarrow> distinct (map index items))
           \<and> (styleCache s = Map.empty \<longrightarrow>
                (\<forall>it \<in> set items. \<exists>sp.
                   style it = nS (itemStyle (scrollDirection (props s)) (index it \<in> set stk) sp)))"
proof -
  let ?st = "getState (dataManager (props s))"
  from getVisibleRange_ok [OF ok, of c "offset s" "overscan ?st"]
  obtain r m' where gv: "getVisibleRange m (Num c) (offset s) (overscan ?st) = Inr (r, m')"
    and ok': "manager_ok m'" and n': "m_itemCount m' = m_itemCount m"
    and shape: "r = empty_range
              \<or> (\<exists>a b. r = \<lparr>range_start = Some a, range_end = Some b\<rparr>
                     \<and> 0 \<le> a \<and> b < m_itemCount m)"
    by blast
  let ?s1 = "s\<lparr>sizeAndPositionManager := Some m'\<rparr>"
  from shape show ?thesis
  proof
    assume e: "r = empty_range"
    with m gv c have "update nS s data = Inr ([], ?s1)"
      by (simp add: update_empty_range)
    with gv e show ?thesis by (auto simp: empty_range_def)
  next
    assume "\<exists>a b. r = \<lparr>range_start = Some a, range_end = Some b\<rparr> \<and> 0 \<le> a \<and> b < m_itemCount m"
    then obtain a b where r: "r = \<lparr>range_start = Some a, range_end = Some b\<rparr>"
      and a: "0 \<le> a" and b: "b < m_itemCount m" by blast
    have ok1: "list_ok (m_itemCount m) ?s1" using ok' n' by (simp add: list_ok_def)
    from push_sticky_total [OF ok1 inr, of nS data "[]"]
    obtain new1 s2 where ps: "push_sticky nS data stk ?s1 [] = Inr (new1, s2)"
      and ok2: "list_ok (m_itemCount m) s2" and idx1: "map index new1 = stk"
      and its1: "\<forall>it \<in> set new1. item it = data_at data (index it)
                        \<and> styleCache s2 (index it) = Some (style it)"
      and p2: "props s2 = props ?s1"
      by auto
    from push_range_total [OF ok2 a b, of nS data "stickyIndices ?st" new1]
    obtain new2 s3 where pr: "push_range nS data (stickyIndices ?st) a b s2 new1 = Inr (new1 @ new2, s3)"
      and idx2: "map index new2 = filter (\<lambda>j. j \<notin> set stk) [a..b]"
      and its2: "\<forall>it \<in> set new2. item it = data_at data (index it)
                        \<and> styleCache s3 (index it) = Some (style it)"
      and le: "styleCache s2 \<subseteq>\<^sub>m styleCache s3"
      unfolding sticky_filter stk by blast
    have u: "update nS s data = Inr (new1 @ new2, s3)"
      using update_range [OF m, of a b m' nS data] gv c r ps pr by (simp add: stk)
    have idx: "map index (new1 @ new2) = stk @ filter (\<lambda>j. j \<notin> set stk) [a..b]"
      using idx1 idx2 by simp
    have its: "\<forall>it \<in> set (new1 @ new2). item it = data_at data (index it)
                        \<and> styleCache s3 (index it) = Some (style it)"
      using its1 its2 le by (auto simp: map_le_def dom_def)
    have dist: "distinct stk \<longrightarrow> distinct (map index (new1 @ new2))"
      unfolding idx by (auto intro: distinct_render)
    have sty: "\<forall>it \<in> set (new1 @ new2). \<exists>sp.
                   style it = nS (itemStyle (scrollDirection (props s)) (index it \<in> set stk) sp)"
      if empty: "styleCache s = Map.empty"
    proof -
      have a1: "cache_agrees nS (scrollDirection (props ?s1)) (set stk) (styleCache ?s1)"
        using empty by simp
      from push_sticky_agrees [OF ps a1 subset_refl]
      have a2: "cache_agrees nS (scrollDirection (props s2)) (set stk) (styleCache s2)"
        and p2': "props s2 = props ?s1" by blast+
      have "set stk = (case stickyIndices ?st of Some xs \<Rightarrow> set xs | None \<Rightarrow> {})"
        by (simp add: stk split: option.splits)
      from push_range_agrees [OF pr a2 this]
      have a3: "cache_agrees nS (scrollDirection (props s3)) (set stk) (styleCache s3)"
        and p3: "props s3 = props s2" by blast+
      from p3 p2' have "props s3 = props s" by simp
      with a3 its show ?thesis by auto
    qed
    from gv u idx its dist sty r show ?thesis
      by (intro exI [of _ r] exI [of _ m'] exI [of _ "new1 @ new2"] exI [of _ s3] conjI)
         (simp_all add: empty_range_def)
  qed
qed

lemma sample_visible_range: "fst (projr (getVisibleRange
            (new_SizeAndPositionManager 5 (getItemSizeGetter (Fixed 20)) (getEstimatedGetter 20 (Fixed 20)))
            (Num 50) 65 0)) = \<lparr>range_start = Some 3, range_end = Some 4\<rparr>"
  by (simp add: sample_defs manager_defs Let_def)

text \<open>
  The sample list scrolled to 65 shows the items 3 and 4 after the sticky item 2.
\<close>

theorem update_render_list_witness:
  "sizeAndPositionManager scrolled_list =
     Some (new_SizeAndPositionManager 5 (getItemSizeGetter (Fixed 20)) (getEstimatedGetter 20 (Fixed 20)))
   \<and> manager_ok (new_SizeAndPositionManager 5 (getItemSizeGetter (Fixed 20)) (getEstimatedGetter 20 (Fixed 20)))
   \<and> getContainerSize (props scrolled_list) = Num 50
   \<and> stickyIndices (getState (dataManager (props scrolled_list))) = Some [2]
   \<and> set [2] \<subseteq> {0..<(5::int)}
   \<and> (\<exists>items s'. update (\<lambda>x. x) scrolled_list ''abcde'' = Inr (items, s')
         \<and> map index items = [2, 3, 4]
         \<and> map item items = [Some CHR ''c'', Some CHR ''d'', Some CHR ''e''])"
proof -
  let ?m = "new_SizeAndPositionManager 5 (getItemSizeGetter (Fixed 20)) (getEstimatedGetter 20 (Fixed 20))"
  have h1: "sizeAndPositionManager scrolled_list = Some ?m"
    by (simp add: sample_defs Let_def)
  have h2: "manager_ok ?m"
    by (simp add: manager_ok_def new_SizeAndPositionManager_def)
  have h3: "getContainerSize (props scrolled_list) = Num 50"
    by (simp add: sample_defs getContainerSize_def Let_def)
  have h4: "stickyIndices (getState (dataManager (props scrolled_list))) = Some [2]"
    by (simp add: sample_defs Let_def)
  then have h4': "[2] = (case stickyIndices (getState (dataManager (props scrolled_list))) of
                          Some xs \<Rightarrow> xs | None \<Rightarrow> [])"
    by simp
  have h5: "\<forall>i \<in> set [2]. 0 \<le> i \<and> i < m_itemCount ?m"
    by (simp add: new_SizeAndPositionManager_def)
  have off: "offset scrolled_list = 65" "overscan (getState (dataManager (props scrolled_list))) = 0"
    by (simp_all add: sample_defs Let_def)
  from update_render_list [OF h1 h2 h3 h4' h5, of "\<lambda>x. x" "''abcde''"]
  obtain r m' items s' where
    g: "getVisibleRange ?m (Num 50) 65 0 = Inr (r, m')"
    and u: "update (\<lambda>x. x) scrolled_list ''abcde'' = Inr (items, s')"
    and idx: "\<forall>a b. r = \<lparr>range_start = Some a, range_end = Some b\<rparr> \<longrightarrow>
                 map index items = [2] @ filter (\<lambda>j. j \<notin> set [2]) [a..b]"
    and its: "\<forall>it \<in> set items. item it = data_at ''abcde'' (index it)
                 \<and> styleCache s' (index it) = Some (style it)"
    unfolding off by blast
  from g sample_visible_range have "r = \<lparr>range_start = Some 3, range_end = Some 4\<rparr>" by simp
  with idx have i: "map index items = [2, 3, 4]" by simp
  from its have "map item items = map (data_at ''abcde'') (map index items)" by simp
  with i have "map item items = [Some CHR ''c'', Some CHR ''d'', Some CHR ''e'']"
    by (simp add: data_at_def)
  with u i h1 h2 h3 h4 show ?thesis by simp
qed

section \<open>Scrolling, the deferred recompute and unmounting\<close>

text \<open>
  Claim C5. \<^verbatim>\<open>setScrollOffset\<close> with the current offset returns the list as it is:
  the offset, the flag \<^verbatim>\<open>needUpdate\<close> and the data manager are unchanged. With another
  value it stores the value as the offset, sets \<^verbatim>\<open>needUpdate\<close> and runs
  \<^verbatim>\<open>updateVirutalListDataRange\<close> on that list, which asks the data manager for an
  update on the next tick and takes the flag back.
\<close>

theorem setScrollOffset_effect:
  "(offset s = x \<longrightarrow> setScrollOffset s x = s)
   \<and> (offset s \<noteq> x \<longrightarrow>
        setScrollOffset s x = updateVirutalListDataRange (s\<lparr>offset := x, needUpdate := True\<rparr>)
        \<and> offset (setScrollOffset s x) = x
        \<and> dataManager (props (setScrollOffset s x)) = nextTickUpdate (dataManager (props s))
        \<and> needUpdate (setScrollOffset s x) = False)"
  by (simp add: setScrollOffset_def updateVirutalListDataRange_def)

theorem setScrollOffset_effect_witness:
  "offset (sample_list VERTICAL) = 0
   \<and> setScrollOffset (sample_list VERTICAL) 0 = sample_list VERTICAL
   \<and> offset (sample_list VERTICAL) \<noteq> 25
   \<and> offset (setScrollOffset (sample_list VERTICAL) 25) = 25
   \<and> dm_pending (dataManager (props (setScrollOffset (sample_list VERTICAL) 25)))"
  using setScrollOffset_effect [of "sample_list VERTICAL" 0]
    setScrollOffset_effect [of "sample_list VERTICAL" 25]
  by (simp add: sample_defs Let_def)

lemma getStyle_props:
  "getStyle nS s i b = Inr (st, s') \<Longrightarrow> props s' = props s"
  by (auto simp: getStyle_def Let_def split: option.splits sum.splits)

lemma push_sticky_props:
  "push_sticky nS data xs s items = Inr (items', s') \<Longrightarrow> props s' = props s"
proof (induction xs arbitrary: s items)
  case Nil
  then show ?case by simp
next
  case (Cons i xs)
  from Cons.prems obtain st s1 where g: "getStyle nS s i True = Inr (st, s1)"
    and r: "push_sticky nS data xs s1 (items @ [\<lparr>index = i, style = st, item = data_at data i\<rparr>]) = Inr (items', s')"
    by (auto split: sum.splits)
  from Cons.IH [OF r] getStyle_props [OF g] show ?case by simp
qed

lemma push_range_props:
  "push_range nS data sticky i e s items = Inr (items', s') \<Longrightarrow> props s' = props s"
proof (induction nS data sticky i e s items rule: push_range.induct)
  case (1 nS data sticky i e s items)
  let ?skip = "case sticky of Some xs \<Rightarrow> i \<in> set xs | None \<Rightarrow> False"
  show ?case
  proof (cases "i \<le> e")
    case False
    with 1(3) show ?thesis by (subst (asm) push_range.simps) simp
  next
    case ie: True
    show ?thesis
    proof (cases ?skip)
      case True
      with ie 1(3) have "push_range nS data sticky (i + 1) e s items = Inr (items', s')"
        by (subst (asm) push_range.simps) simp
      from 1(1) [OF ie True this] show ?thesis .
    next
      case False
      with ie 1(3) obtain st s1 where g: "getStyle nS s i False = Inr (st, s1)"
        and r: "push_range nS data sticky (i + 1) e s1
                  (items @ [\<lparr>index = i, style = st, item = data_at data i\<rparr>]) = Inr (items', s')"
        by (subst (asm) push_range.simps) (auto split: sum.splits)
      from 1(2) [OF ie False g refl r] getStyle_props [OF g] show ?thesis by simp
    qed
  qed
qed

lemma update_props:
  assumes "update nS s data = Inr (items, s')"
  shows "props s' = props s"
proof -
  from assms obtain m r m' where m: "sizeAndPositionManager s = Some m"
    and g: "getVisibleRange m (getContainerSize (props s)) (offset s)
              (overscan (getState (dataManager (props s)))) = Inr (r, m')"
    by (auto simp: update_def Let_def split: option.splits sum.splits)
  let ?s1 = "s\<lparr>sizeAndPositionManager := Some m'\<rparr>"
  show ?thesis
  proof (cases "\<exists>a b. range_start r = Some a \<and> range_end r = Some b")
    case False
    with assms m g have "s' = ?s1"
      by (auto simp: update_def Let_def split: option.splits)
    then show ?thesis by simp
  next
    case True
    then obtain a b where ab: "range_start r = Some a" "range_end r = Some b" by blast
    with assms m g obtain items1 s2 where
      ps: "push_sticky nS data
             (case stickyIndices (getState (dataManager (props s))) of Some xs \<Rightarrow> xs | None \<Rightarrow> [])
             ?s1 [] = Inr (items1, s2)"
      and pr: "push_range nS data (stickyIndices (getState (dataManager (props s)))) a b s2 items1
                 = Inr (items, s')"
      by (auto simp: update_def Let_def split: sum.splits)
    from push_sticky_props [OF ps] push_range_props [OF pr] show ?thesis by simp
  qed
qed

lemma recompute_not_pending:
  "\<not> dm_pending (dataManager (props s)) \<Longrightarrow> recompute nS data s = (r, s1) \<Longrightarrow>
   \<not> dm_pending (dataManager (props s1))"
  by (auto simp: recompute_def split: sum.splits dest: update_props)

lemma clear_pending_setScrollOffset:
  "offset s \<noteq> x \<Longrightarrow>
   clear_pending (setScrollOffset s x) = (clear_pending s)\<lparr>offset := x, needUpdate := False\<rparr>"
  by (simp add: setScrollOffset_def updateVirutalListDataRange_def clear_pending_def nextTickUpdate_def)

lemma setScrollOffset_pending:
  "offset s \<noteq> x \<Longrightarrow> \<not> dm_destroyed (dataManager (props s)) \<Longrightarrow>
   dm_pending (dataManager (props (setScrollOffset s x)))
   \<and> \<not> dm_destroyed (dataManager (props (setScrollOffset s x)))
   \<and> offset (setScrollOffset s x) = x"
  by (simp add: setScrollOffset_def updateVirutalListDataRange_def nextTickUpdate_def)

lemma scrolls_request:
  "xs \<noteq> [] \<Longrightarrow> successively (\<noteq>) (offset (component w) # xs) \<Longrightarrow>
   \<not> dm_destroyed (dataManager (props (component w))) \<Longrightarrow>
   clear_pending (component (fold scroll xs w)) =
     (clear_pending (component w))\<lparr>offset := last xs, needUpdate := False\<rparr>
   \<and> dm_pending (dataManager (props (component (fold scroll xs w))))
   \<and> executions (fold scroll xs w) = executions w
   \<and> timers (fold scroll xs w) = timers w"
proof (induction xs arbitrary: w)
  case Nil
  then show ?case by simp
next
  case (Cons x xs)
  from Cons.prems(2) have ne: "offset (component w) \<noteq> x" by simp
  let ?w1 = "scroll x w"
  from setScrollOffset_pending [OF ne Cons.prems(3)]
  have p1: "dm_pending (dataManager (props (component ?w1)))"
    and d1: "\<not> dm_destroyed (dataManager (props (component ?w1)))"
    and o1: "offset (component ?w1) = x"
    by (simp_all add: scroll_def)
  have c1: "clear_pending (component ?w1) = (clear_pending (component w))\<lparr>offset := x, needUpdate := False\<rparr>"
    using clear_pending_setScrollOffset [OF ne] by (simp add: scroll_def)
  have e1: "executions ?w1 = executions w" "timers ?w1 = timers w" by (simp_all add: scroll_def)
  show ?case
  proof (cases "xs = []")
    case True
    with p1 c1 e1 show ?thesis by simp
  next
    case False
    from Cons.prems(2) o1 have "successively (\<noteq>) (offset (component ?w1) # xs)" by simp
    from Cons.IH [OF False this d1] c1 e1 False show ?thesis by simp
  qed
qed

text \<open>
  Claim C7. Let a list that is not destroyed be scrolled N times, N at least 1, each
  time to an offset other than the one before, so that each call requests a
  recompute. When the deferred callback fires afterwards, exactly one recompute is
  executed, on the list as it stands then, with the last offset; a second firing
  executes nothing.
\<close>

theorem requests_coalesce:
  fixes w :: "('a, 'st) world"
  assumes "xs \<noteq> []" and "successively (\<noteq>) (offset (component w) # xs)"
    and "\<not> dm_destroyed (dataManager (props (component w)))"
  shows "fire nS data (fold scroll xs w) =
           (fold scroll xs w)
             \<lparr>component :=
                snd (recompute nS data ((clear_pending (component w))\<lparr>offset := last xs, needUpdate := False\<rparr>)),
              executions :=
                executions w
                @ [fst (recompute nS data ((clear_pending (component w))\<lparr>offset := last xs, needUpdate := False\<rparr>))]\<rparr>
         \<and> length (executions (fire nS data (fold scroll xs w))) = length (executions w) + 1
         \<and> fire nS data (fire nS data (fold scroll xs w)) = fire nS data (fold scroll xs w)"
proof -
  let ?w1 = "fold scroll xs w"
  let ?s = "(clear_pending (component w))\<lparr>offset := last xs, needUpdate := False\<rparr>"
  from scrolls_request [OF assms]
  have c: "clear_pending (component ?w1) = ?s"
    and p: "dm_pending (dataManager (props (component ?w1)))"
    and e: "executions ?w1 = executions w" by simp_all
  obtain r s1 where rc: "recompute nS data ?s = (r, s1)" by (cases "recompute nS data ?s")
  have f: "fire nS data ?w1 = ?w1\<lparr>component := s1, executions := executions w @ [r]\<rparr>"
    using p c rc e by (simp add: fire_def)
  have "\<not> dm_pending (dataManager (props ?s))" by (simp add: clear_pending_def)
  from recompute_not_pending [OF this rc]
  have np: "\<not> dm_pending (dataManager (props s1))" .
  have "fire nS data (fire nS data ?w1) = fire nS data ?w1"
    unfolding f using np by (simp add: fire_def)
  with f rc show ?thesis by simp
qed

lemma scroll_destroyed:
  "dm_destroyed (dataManager (props (component w))) \<Longrightarrow>
   \<not> dm_pending (dataManager (props (component w))) \<Longrightarrow>
   dm_destroyed (dataManager (props (component (scroll x w))))
   \<and> \<not> dm_pending (dataManager (props (component (scroll x w))))
   \<and> executions (scroll x w) = executions w"
  by (simp add: scroll_def setScrollOffset_def updateVirutalListDataRange_def nextTickUpdate_def)

lemma scrolls_destroyed:
  "dm_destroyed (dataManager (props (component w))) \<Longrightarrow>
   \<not> dm_pending (dataManager (props (component w))) \<Longrightarrow>
   \<not> dm_pending (dataManager (props (component (fold scroll xs w))))
   \<and> executions (fold scroll xs w) = executions w"
proof (induction xs arbitrary: w)
  case Nil
  then show ?case by simp
next
  case (Cons x xs)
  from scroll_destroyed [OF Cons.prems, of x] Cons.IH [of "scroll x w"]
  show ?case by simp
qed

text \<open>
  Claim C8. After \<^verbatim>\<open>componentWillUnmount\<close> the data manager is destroyed, nothing is
  pending, and the timer that \<^verbatim>\<open>delayUpdateTimer\<close> named, if any, is no longer armed.
  The deferred callback then executes no recompute, also after further scrolling.
\<close>

theorem unmount_cancels_recompute:
  fixes w :: "('a, 'st) world"
  shows "dm_destroyed (dataManager (props (component (unmount w))))
         \<and> \<not> dm_pending (dataManager (props (component (unmount w))))
         \<and> fire nS data (unmount w) = unmount w
         \<and> executions (unmount w) = executions w
         \<and> (\<forall>t. delayUpdateTimer (component w) = Some t \<longrightarrow> t \<notin> timers (unmount w))
         \<and> (\<forall>xs. executions (fire nS data (fold scroll xs (unmount w))) = executions w)"
proof -
  have d: "dm_destroyed (dataManager (props (component (unmount w))))"
    and p: "\<not> dm_pending (dataManager (props (component (unmount w))))"
    and e: "executions (unmount w) = executions w"
    by (simp_all add: unmount_def componentWillUnmount_def destroy_def Let_def)
  have t: "\<forall>t. delayUpdateTimer (component w) = Some t \<longrightarrow> t \<notin> timers (unmount w)"
    by (simp add: unmount_def componentWillUnmount_def clearTimeout_def Let_def)
  have f: "fire nS data (unmount w) = unmount w" using p by (simp add: fire_def)
  have "executions (fire nS data (fold scroll xs (unmount w))) = executions w" for xs
    using scrolls_destroyed [OF d p, of xs] e by (simp add: fire_def)
  with d p e t f show ?thesis by blast
qed

section \<open>Computed and cached styles\<close>

text \<open>
  Claim C1 as stated fails where the visible range is empty: in a container of
  extent 0 the item 2 is sticky, and the render list is empty.
\<close>

theorem update_render_list_counterexample:
  "stickyIndices (getState (dataManager (props flat_list))) = Some [2]
   \<and> itemCount (getState (dataManager (props flat_list))) = 5
   \<and> getContainerSize (props flat_list) = Num 0
   \<and> update (\<lambda>x. x) flat_list ''abcde'' = Inr ([], flat_list)"
  by (simp add: flat_list_def update_defs sample_defs manager_defs Let_def)

text \<open>
  Claim C2 as stated fails in two places. In a horizontal list the extent across
  the scroll axis is the height, which stays \<^verbatim>\<open>'auto'\<close>. And once the normal style
  of the item 2 is cached, \<^verbatim>\<open>getStyle(2, true)\<close> returns that style, absolute at the
  offset 40.
\<close>

theorem getStyle_counterexample:
  "get_size (cross_key (sizeProp HORIZONTAL))
     (fst (projr (getStyle (\<lambda>x. x) (sample_list HORIZONTAL) 1 True))) = Str ''auto''
   \<and> styleCache cached_list 2 \<noteq> None
   \<and> position (fst (projr (getStyle (\<lambda>x. x) cached_list 2 True))) = Absolute
   \<and> top' (fst (projr (getStyle (\<lambda>x. x) cached_list 2 True))) = 40"
  by (simp add: cached_list_def update_defs sample_defs manager_defs Let_def)

text \<open>
  Claim C2, as amended. When no style is cached for the index and the manager
  returns the size and position of the index, the style that \<^verbatim>\<open>getStyle\<close> computes
  and passes to \<^verbatim>\<open>normalizeStyle\<close> has, in both scroll directions: for a sticky item
  the position \<^verbatim>\<open>'sticky'\<close>, 0 at the position key of the scroll axis and the z-index
  \<^verbatim>\<open>DEFAULT_ZINDEX\<close>; for a normal item the position \<^verbatim>\<open>'absolute'\<close>, the computed
  offset at the position key of the scroll axis and the z-index \<^verbatim>\<open>'auto'\<close>; in both
  cases the computed size at the size key of the scroll axis. The extent across the
  scroll axis is \<^verbatim>\<open>'100%'\<close> (the width) in a vertical list and \<^verbatim>\<open>'auto'\<close> (the
  height) in a horizontal one.
\<close>

theorem getStyle_computed_style:
  assumes "styleCache s i = None" and "sizeAndPositionManager s = Some m"
    and "getSizeAndPositionForIndex m i = Inr (sp, m')"
    and "scrollDirection (props s) = d"
  shows "\<exists>st s'. getStyle nS s i sticky = Inr (nS st, s')
           \<and> position st = (if sticky then Sticky else Absolute)
           \<and> get_position (positionProp d) st = (if sticky then 0 else sp_offset sp)
           \<and> zIndex st = (if sticky then DEFAULT_ZINDEX else ZAuto)
           \<and> get_size (sizeProp d) st = Num (sp_size sp)
           \<and> get_size (cross_key (sizeProp d)) st
               = (case d of VERTICAL \<Rightarrow> Str ''100%'' | HORIZONTAL \<Rightarrow> Str ''auto'')"
proof -
  let ?st = "itemStyle d sticky sp"
  have "getStyle nS s i sticky =
          Inr (nS ?st, s\<lparr>sizeAndPositionManager := Some m', styleCache := (styleCache s)(i \<mapsto> nS ?st)\<rparr>)"
    using getStyle_miss [OF assms(1-3), of nS sticky] assms(4) by simp
  moreover have "position ?st = (if sticky then Sticky else Absolute)"
    by (cases d) (simp_all add: itemStyle_def set_size_def set_position_def STYLE_ITEM_def
        StyleItem.extend_def ItemStyle.fields_def Let_def)
  moreover have "get_position (positionProp d) ?st = (if sticky then 0 else sp_offset sp)"
    by (cases d) (simp_all add: itemStyle_def set_size_def set_position_def STYLE_ITEM_def
        StyleItem.extend_def ItemStyle.fields_def get_position_def Let_def)
  moreover have "zIndex ?st = (if sticky then DEFAULT_ZINDEX else ZAuto)"
    by (cases d) (simp_all add: itemStyle_def set_size_def set_position_def STYLE_ITEM_def
        StyleItem.extend_def ItemStyle.fields_def Let_def)
  moreover have "get_size (sizeProp d) ?st = Num (sp_size sp)"
    by (cases d) (simp_all add: itemStyle_def set_size_def set_position_def STYLE_ITEM_def
        StyleItem.extend_def ItemStyle.fields_def get_size_def Let_def)
  moreover have "get_size (cross_key (sizeProp d)) ?st
               = (case d of VERTICAL \<Rightarrow> Str ''100%'' | HORIZONTAL \<Rightarrow> Str ''auto'')"
    by (cases d) (simp_all add: itemStyle_def set_size_def set_position_def STYLE_ITEM_def
        StyleItem.extend_def ItemStyle.fields_def get_size_def Let_def)
  ultimately show ?thesis by blast
qed

theorem getStyle_computed_style_witness:
  "styleCache (sample_list HORIZONTAL) 1 = None
   \<and> sizeAndPositionManager (sample_list HORIZONTAL)
       = Some (new_SizeAndPositionManager 5 (getItemSizeGetter (Fixed 20)) (getEstimatedGetter 20 (Fixed 20)))
   \<and> fst (projr (getSizeAndPositionForIndex
        (new_SizeAndPositionManager 5 (getItemSizeGetter (Fixed 20)) (getEstimatedGetter 20 (Fixed 20))) 1))
       = \<lparr>sp_offset = 20, sp_size = 20\<rparr>
   \<and> scrollDirection (props (sample_list HORIZONTAL)) = HORIZONTAL
   \<and> (\<exists>st s'. getStyle (\<lambda>x. x) (sample_list HORIZONTAL) 1 False = Inr (st, s')
         \<and> position st = Absolute \<and> left st = 20 \<and> zIndex st = ZAuto \<and> width st = Num 20
         \<and> height st = Str ''auto'')"
proof -
  let ?m = "new_SizeAndPositionManager 5 (getItemSizeGetter (Fixed 20)) (getEstimatedGetter 20 (Fixed 20))"
  have h1: "styleCache (sample_list HORIZONTAL) 1 = None" by (simp add: sample_defs Let_def)
  have h2: "sizeAndPositionManager (sample_list HORIZONTAL) = Some ?m" by (simp add: sample_defs Let_def)
  have h3a: "fst (projr (getSizeAndPositionForIndex ?m 1)) = \<lparr>sp_offset = 20, sp_size = 20\<rparr>"
    by (simp add: sample_defs manager_defs Let_def)
  have "getSizeAndPositionForIndex ?m 1 = Inr (projr (getSizeAndPositionForIndex ?m 1))"
    by (simp add: sample_defs manager_defs Let_def)
  with h3a have h3: "getSizeAndPositionForIndex ?m 1 =
              Inr (\<lparr>sp_offset = 20, sp_size = 20\<rparr>, snd (projr (getSizeAndPositionForIndex ?m 1)))"
    by (metis prod.collapse)
  have h4: "scrollDirection (props (sample_list HORIZONTAL)) = HORIZONTAL"
    by (simp add: sample_defs Let_def)
  from getStyle_computed_style [OF h1 h2 h3 h4, of "\<lambda>x. x" False]
  obtain st s' where "getStyle (\<lambda>x. x) (sample_list HORIZONTAL) 1 False = Inr (st, s')"
    "position st = Absolute" "left st = 20" "zIndex st = ZAuto" "width st = Num 20"
    "height st = Str ''auto''"
    by (auto simp: get_size_def get_position_def)
  then have "\<exists>st s'. getStyle (\<lambda>x. x) (sample_list HORIZONTAL) 1 False = Inr (st, s')
         \<and> position st = Absolute \<and> left st = 20 \<and> zIndex st = ZAuto \<and> width st = Num 20
         \<and> height st = Str ''auto''"
    by blast
  with h1 h2 h3a h4 show ?thesis by blast
qed

section \<open>State changes and empty ranges\<close>

lemma onStateChange_mounted:
  assumes "sizeAndPositionManager s = Some m"
  shows "onStateChange s prevState =
     Inr (s\<lparr>styleCache := Map.empty,
            sizeAndPositionManager :=
              Some (resetItem
                (let st = getState (dataManager (props s));
                     m1 = (if itemCount prevState \<noteq> itemCount st
                           then updateConfig m
                                  \<lparr>cfg_itemCount = Some (itemCount st), cfg_itemSizeGetter = None,
                                   cfg_estimatedSizeGetter = None\<rparr>
                           else m)
                 in if itemSize prevState \<noteq> itemSize st \<or> estimatedSize prevState \<noteq> estimatedSize st
                    then updateConfig m1
                           \<lparr>cfg_itemCount = None,
                            cfg_itemSizeGetter = Some (getItemSizeGetter (itemSize st)),
                            cfg_estimatedSizeGetter =
                              Some (getEstimatedGetter (estimatedSize st) (itemSize st))\<rparr>
                    else m1) 0)\<rparr>)"
  using assms by (simp add: onStateChange_def recomputeSizes_def Let_def)

lemma recomputeSizes_mounted:
  "sizeAndPositionManager s = Some m \<Longrightarrow>
   recomputeSizes s k = Inr (s\<lparr>styleCache := Map.empty, sizeAndPositionManager := Some (resetItem m k)\<rparr>)"
  by (simp add: recomputeSizes_def Let_def)

lemma resetItem_zero:
  "m_lastMeasuredIndex (resetItem m 0) < 0
   \<and> (\<forall>k. 0 \<le> k \<longrightarrow> m_itemSizeAndPositionData (resetItem m 0) k = None)
   \<and> m_itemCount (resetItem m 0) = m_itemCount m
   \<and> m_itemSizeGetter (resetItem m 0) = m_itemSizeGetter m
   \<and> m_estimatedSizeGetter (resetItem m 0) = m_estimatedSizeGetter m"
  by (simp add: resetItem_def)

text \<open>
  Claim C3. On a mounted list, \<^verbatim>\<open>onStateChange\<close> compares the previous state with
  the state of the data manager. If the item count changed, the manager gets
  \<^verbatim>\<open>updateConfig({itemCount})\<close> and has the new item count afterwards. If the item
  size or the estimated size changed, the manager gets \<^verbatim>\<open>updateConfig\<close> with the new
  item size getter and estimated size getter, the style cache is empty afterwards,
  and the manager is invalidated from the index 0: nothing is measured and no
  record of an index from 0 on is left.
\<close>

theorem onStateChange_updates_config:
  fixes s :: "'st VirtualList"
  assumes "sizeAndPositionManager s = Some m" and "st = getState (dataManager (props s))"
  shows "\<exists>s' m'. onStateChange s prevState = Inr s' \<and> sizeAndPositionManager s' = Some m'
     \<and> (itemCount prevState \<noteq> itemCount st \<longrightarrow> m_itemCount m' = itemCount st)
     \<and> (itemCount prevState \<noteq> itemCount st
          \<and> itemSize prevState = itemSize st \<and> estimatedSize prevState = estimatedSize st \<longrightarrow>
           m' = resetItem (updateConfig m
                  \<lparr>cfg_itemCount = Some (itemCount st), cfg_itemSizeGetter = None,
                   cfg_estimatedSizeGetter = None\<rparr>) 0)
     \<and> (itemSize prevState \<noteq> itemSize st \<or> estimatedSize prevState \<noteq> estimatedSize st \<longrightarrow>
           m_itemSizeGetter m' = getItemSizeGetter (itemSize st)
           \<and> m_estimatedSizeGetter m' = getEstimatedGetter (estimatedSize st) (itemSize st)
           \<and> styleCache s' = Map.empty
           \<and> m_lastMeasuredIndex m' < 0
           \<and> (\<forall>k. 0 \<le> k \<longrightarrow> m_itemSizeAndPositionData m' k = None))
     \<and> (itemCount prevState = itemCount st
          \<and> (itemSize prevState \<noteq> itemSize st \<or> estimatedSize prevState \<noteq> estimatedSize st) \<longrightarrow>
           m' = resetItem (updateConfig m
                  \<lparr>cfg_itemCount = None,
                   cfg_itemSizeGetter = Some (getItemSizeGetter (itemSize st)),
                   cfg_estimatedSizeGetter =
                     Some (getEstimatedGetter (estimatedSize st) (itemSize st))\<rparr>) 0)"
proof -
  let ?c1 = "\<lparr>cfg_itemCount = Some (itemCount st), cfg_itemSizeGetter = None,
             cfg_estimatedSizeGetter = None\<rparr>"
  let ?c2 = "\<lparr>cfg_itemCount = None,
             cfg_itemSizeGetter = Some (getItemSizeGetter (itemSize st)),
             cfg_estimatedSizeGetter = Some (getEstimatedGetter (estimatedSize st) (itemSize st))\<rparr>"
  define m1 where "m1 = (if itemCount prevState \<noteq> itemCount st then updateConfig m ?c1 else m)"
  define m2 where "m2 = (if itemSize prevState \<noteq> itemSize st \<or> estimatedSize prevState \<noteq> estimatedSize st
                         then updateConfig m1 ?c2 else m1)"
  let ?s' = "s\<lparr>styleCache := Map.empty, sizeAndPositionManager := Some (resetItem m2 0)\<rparr>"
  have r: "onStateChange s prevState = Inr ?s'"
    unfolding onStateChange_mounted [OF assms(1)] by (simp add: Let_def m1_def m2_def assms(2))
  have count: "m_itemCount m2 = itemCount st" if "itemCount prevState \<noteq> itemCount st"
    using that by (simp add: m2_def m1_def updateConfig_def Let_def)
  have only_count: "m2 = updateConfig m ?c1"
    if "itemCount prevState \<noteq> itemCount st" "itemSize prevState = itemSize st"
      "estimatedSize prevState = estimatedSize st"
    using that by (simp add: m2_def m1_def)
  have getters: "m_itemSizeGetter m2 = getItemSizeGetter (itemSize st)
                 \<and> m_estimatedSizeGetter m2 = getEstimatedGetter (estimatedSize st) (itemSize st)"
    if "itemSize prevState \<noteq> itemSize st \<or> estimatedSize prevState \<noteq> estimatedSize st"
    using that by (simp add: m2_def updateConfig_def Let_def)
  have only_size: "m2 = updateConfig m ?c2"
    if "itemCount prevState = itemCount st"
      "itemSize prevState \<noteq> itemSize st \<or> estimatedSize prevState \<noteq> estimatedSize st"
    using that by (simp add: m2_def m1_def)
  have "sizeAndPositionManager ?s' = Some (resetItem m2 0)" "styleCache ?s' = Map.empty"
    by simp_all
  with r count only_count getters only_size resetItem_zero [of m2]
  show ?thesis by (intro exI [of _ ?s'] exI [of _ "resetItem m2 0"]) simp
qed

text \<open>
  Claim C10. On a mounted list, every \<^verbatim>\<open>onStateChange\<close> leaves the style cache empty
  and the manager invalidated from the index 0, whatever changed; when neither the
  item count nor the item size nor the estimated size changed, that is all it does:
  the list afterwards is the list before with the cache emptied and the manager
  reset from 0.
\<close>

theorem onStateChange_always_recomputes:
  fixes s :: "'st VirtualList"
  assumes "sizeAndPositionManager s = Some m" and "st = getState (dataManager (props s))"
  shows "\<exists>s' m'. onStateChange s prevState = Inr s' \<and> sizeAndPositionManager s' = Some m'
     \<and> styleCache s' = Map.empty
     \<and> m_lastMeasuredIndex m' < 0
     \<and> (\<forall>k. 0 \<le> k \<longrightarrow> m_itemSizeAndPositionData m' k = None)
     \<and> (itemCount prevState = itemCount st \<and> itemSize prevState = itemSize st
          \<and> estimatedSize prevState = estimatedSize st \<longrightarrow>
           s' = s\<lparr>styleCache := Map.empty, sizeAndPositionManager := Some (resetItem m 0)\<rparr>)"
proof -
  define m2 where "m2 =
    (let m1 = (if itemCount prevState \<noteq> itemCount st
               then updateConfig m
                      \<lparr>cfg_itemCount = Some (itemCount st), cfg_itemSizeGetter = None,
                       cfg_estimatedSizeGetter = None\<rparr>
               else m)
     in if itemSize prevState \<noteq> itemSize st \<or> estimatedSize prevState \<noteq> estimatedSize st
        then updateConfig m1
               \<lparr>cfg_itemCount = None,
                cfg_itemSizeGetter = Some (getItemSizeGetter (itemSize st)),
                cfg_estimatedSizeGetter = Some (getEstimatedGetter (estimatedSize st) (itemSize st))\<rparr>
        else m1)"
  let ?s' = "s\<lparr>styleCache := Map.empty, sizeAndPositionManager := Some (resetItem m2 0)\<rparr>"
  have r: "onStateChange s prevState = Inr ?s'"
    unfolding onStateChange_mounted [OF assms(1)] by (simp add: Let_def m2_def assms(2))
  have same: "m2 = m"
    if "itemCount prevState = itemCount st \<and> itemSize prevState = itemSize st
          \<and> estimatedSize prevState = estimatedSize st"
    using that by (simp add: m2_def)
  have "sizeAndPositionManager ?s' = Some (resetItem m2 0)" "styleCache ?s' = Map.empty"
    by simp_all
  with r same resetItem_zero [of m2]
  show ?thesis by (intro exI [of _ ?s'] exI [of _ "resetItem m2 0"]) auto
qed

text \<open>
  Claim C6. \<^verbatim>\<open>getStyle(index, sticky)\<close> returns the cached style when the cache has
  one for the index, and leaves the list as it is. Otherwise it computes the style
  from \<^verbatim>\<open>getSizeAndPositionForIndex(index)\<close> of the manager and stores it in the
  cache under the index, the other entries unchanged. \<^verbatim>\<open>recomputeSizes\<close> on a mounted
  list replaces the whole cache by the empty one.
\<close>

theorem getStyle_memoized:
  fixes s :: "'st VirtualList"
  shows "(styleCache s i = Some st \<longrightarrow> getStyle nS s i sticky = Inr (st, s))
   \<and> (styleCache s i = None \<and> sizeAndPositionManager s = Some m
        \<and> getSizeAndPositionForIndex m i = Inr (sp, m') \<longrightarrow>
         getStyle nS s i sticky =
           Inr (nS (itemStyle (scrollDirection (props s)) sticky sp),
                s\<lparr>sizeAndPositionManager := Some m',
                  styleCache :=
                    (styleCache s)(i \<mapsto> nS (itemStyle (scrollDirection (props s)) sticky sp))\<rparr>))
   \<and> (sizeAndPositionManager s = Some m \<longrightarrow>
         recomputeSizes s k =
           Inr (s\<lparr>styleCache := Map.empty, sizeAndPositionManager := Some (resetItem m k)\<rparr>))"
  by (simp add: getStyle_hit getStyle_miss recomputeSizes_mounted)

text \<open>
  Claim C9. The key of the style cache is the index alone. Once \<^verbatim>\<open>getStyle(i, s)\<close>
  has returned a style, the cache holds it for \<open>i\<close>, and \<^verbatim>\<open>getStyle(i, s')\<close> returns
  the same style for either value of \<open>s'\<close>, in that list and in any later one whose
  cache still holds it.
\<close>

theorem style_cache_ignores_sticky:
  fixes s :: "'st VirtualList"
  assumes "getStyle nS s i sticky = Inr (st, s1)"
  shows "styleCache s1 i = Some st
         \<and> getStyle nS s1 i sticky' = Inr (st, s1)
         \<and> (\<forall>s2 :: 'st VirtualList. styleCache s2 i = Some st \<longrightarrow> getStyle nS s2 i sticky' = Inr (st, s2))"
proof -
  have "styleCache s1 i = Some st"
    using assms by (auto simp: getStyle_def Let_def split: option.splits sum.splits)
  then show ?thesis by (simp add: getStyle_hit)
qed

text \<open>
  Claim C4, as amended. On a mounted list, for every scroll offset and overscan:
  when the item count is 0, \<^verbatim>\<open>getVisibleRange\<close> returns the empty range for every
  container size, \<^verbatim>\<open>update\<close> returns the empty render list, and the total size is
  0; when the container size is a number at most 0, \<^verbatim>\<open>getVisibleRange\<close> returns
  the empty range and \<^verbatim>\<open>update\<close> returns the empty render list. The total size does
  not depend on the container.
\<close>

theorem empty_range_cases:
  fixes s :: "'st VirtualList"
  assumes "sizeAndPositionManager s = Some m"
  shows "(m_itemCount m = 0 \<longrightarrow>
            getVisibleRange m containerSize currentOffset ov = Inr (empty_range, m)
            \<and> update nS s data = Inr ([], s)
            \<and> getTotalSize m = 0 \<and> render_totalSize s = 0)
         \<and> (c \<le> 0 \<longrightarrow>
            getVisibleRange m (Num c) currentOffset ov = Inr (empty_range, m)
            \<and> (getContainerSize (props s) = Num c \<longrightarrow> update nS s data = Inr ([], s)))"
proof -
  have s: "s\<lparr>sizeAndPositionManager := Some m\<rparr> = s" using assms by simp
  have a: "getVisibleRange m containerSize currentOffset ov = Inr (empty_range, m)"
    if "m_itemCount m = 0" for containerSize currentOffset ov
    using that by (simp add: getVisibleRange_def)
  have b: "getVisibleRange m (Num c) currentOffset ov = Inr (empty_range, m)"
    if "c \<le> 0" for currentOffset ov
    using that by (simp add: getVisibleRange_def)
  have "update nS s data = Inr ([], s)" if "m_itemCount m = 0"
    using update_empty_range [OF assms a [OF that], of nS data] s by simp
  moreover have "update nS s data = Inr ([], s)" if "c \<le> 0" "getContainerSize (props s) = Num c"
    using update_empty_range [OF assms, of m nS data] b [OF that(1)] that(2) s by simp
  moreover have "getTotalSize m = 0 \<and> render_totalSize s = 0" if "m_itemCount m = 0"
    using that assms by (simp add: getTotalSize_def render_totalSize_def)
  ultimately show ?thesis using a b by blast
qed

text \<open>
  Claim C4 as stated fails for the total size: the five items of size 20 in a
  container of extent 0 have the total size 100.
\<close>

theorem empty_range_cases_counterexample:
  "getContainerSize (props flat_list) = Num 0
   \<and> sizeAndPositionManager flat_list
       = Some (new_SizeAndPositionManager 5 (getItemSizeGetter (Fixed 20)) (getEstimatedGetter 20 (Fixed 20)))
   \<and> getTotalSize
        (new_SizeAndPositionManager 5 (getItemSizeGetter (Fixed 20)) (getEstimatedGetter 20 (Fixed 20)))
       = 100
   \<and> render_totalSize flat_list = 100"
  by (simp add: flat_list_def sample_defs manager_defs getTotalSize_def render_totalSize_def Let_def)

section \<open>The theorems on the sample lists\<close>

lemma cached_mounted: "sizeAndPositionManager cached_list = Some cached_manager"
  by (simp add: cached_defs update_defs sample_defs manager_defs Let_def)

lemma cached_style:
  "styleCache cached_list 2 =
     Some \<lparr>position = Absolute, width = Str ''100%'', height = Num 20, left = 0, top' = 40,
           zIndex = ZAuto\<rparr>"
  by (simp add: cached_defs update_defs sample_defs manager_defs Let_def)

theorem onStateChange_updates_config_witness:
  "sizeAndPositionManager (with_state (sample_state\<lparr>itemCount := 8\<rparr>) cached_list) = Some cached_manager
   \<and> sizeAndPositionManager (with_state (sample_state\<lparr>itemSize := Fixed 30\<rparr>) cached_list) = Some cached_manager
   \<and> itemCount sample_state \<noteq> 8 \<and> itemSize sample_state \<noteq> Fixed 30
   \<and> m_itemCount cached_manager = 5 \<and> m_lastMeasuredIndex cached_manager = 2
   \<and> (\<exists>s' m'. onStateChange (with_state (sample_state\<lparr>itemCount := 8\<rparr>) cached_list) sample_state = Inr s'
         \<and> sizeAndPositionManager s' = Some m' \<and> m_itemCount m' = 8)
   \<and> (\<exists>s' m'. onStateChange (with_state (sample_state\<lparr>itemSize := Fixed 30\<rparr>) cached_list) sample_state = Inr s'
         \<and> sizeAndPositionManager s' = Some m' \<and> m_itemSizeGetter m' 0 = Some 30
         \<and> m_estimatedSizeGetter m' 0 = 30 \<and> styleCache s' = Map.empty
         \<and> m_lastMeasuredIndex m' < 0)"
proof -
  let ?a = "with_state (sample_state\<lparr>itemCount := 8\<rparr>) cached_list"
  let ?b = "with_state (sample_state\<lparr>itemSize := Fixed 30\<rparr>) cached_list"
  have ma: "sizeAndPositionManager ?a = Some cached_manager"
    and mb: "sizeAndPositionManager ?b = Some cached_manager"
    using cached_mounted by (simp_all add: with_state_def)
  have sa: "sample_state\<lparr>itemCount := 8\<rparr> = getState (dataManager (props ?a))"
    and sb: "sample_state\<lparr>itemSize := Fixed 30\<rparr> = getState (dataManager (props ?b))"
    by (simp_all add: with_state_def getState_def)
  have ne: "itemCount sample_state \<noteq> 8" "itemSize sample_state \<noteq> Fixed 30"
    "estimatedSize sample_state = 20"
    by (simp_all add: sample_state_def)
  have cm: "m_itemCount cached_manager = 5" "m_lastMeasuredIndex cached_manager = 2"
    by (simp_all add: cached_defs sample_defs manager_defs Let_def)
  from onStateChange_updates_config [OF ma sa, of sample_state] ne
  have A: "\<exists>s' m'. onStateChange ?a sample_state = Inr s'
         \<and> sizeAndPositionManager s' = Some m' \<and> m_itemCount m' = 8"
    by auto
  from onStateChange_updates_config [OF mb sb, of sample_state] ne
  have B: "\<exists>s' m'. onStateChange ?b sample_state = Inr s'
         \<and> sizeAndPositionManager s' = Some m' \<and> m_itemSizeGetter m' 0 = Some 30
         \<and> m_estimatedSizeGetter m' 0 = 30 \<and> styleCache s' = Map.empty
         \<and> m_lastMeasuredIndex m' < 0"
    by (auto simp: getItemSizeGetter_def getEstimatedGetter_def)
  from ma mb ne cm A B show ?thesis by blast
qed

theorem onStateChange_always_recomputes_witness:
  "sizeAndPositionManager (with_state (sample_state\<lparr>overscan := 3\<rparr>) cached_list) = Some cached_manager
   \<and> itemCount sample_state = itemCount (sample_state\<lparr>overscan := 3\<rparr>)
   \<and> itemSize sample_state = itemSize (sample_state\<lparr>overscan := 3\<rparr>)
   \<and> estimatedSize sample_state = estimatedSize (sample_state\<lparr>overscan := 3\<rparr>)
   \<and> styleCache (with_state (sample_state\<lparr>overscan := 3\<rparr>) cached_list) 2 \<noteq> None
   \<and> m_lastMeasuredIndex cached_manager = 2
   \<and> (\<exists>s'. onStateChange (with_state (sample_state\<lparr>overscan := 3\<rparr>) cached_list) sample_state = Inr s'
         \<and> styleCache s' = Map.empty
         \<and> sizeAndPositionManager s' = Some (resetItem cached_manager 0)
         \<and> m_lastMeasuredIndex (resetItem cached_manager 0) = - 1)"
proof -
  let ?a = "with_state (sample_state\<lparr>overscan := 3\<rparr>) cached_list"
  have ma: "sizeAndPositionManager ?a = Some cached_manager"
    using cached_mounted by (simp add: with_state_def)
  have sa: "sample_state\<lparr>overscan := 3\<rparr> = getState (dataManager (props ?a))"
    by (simp add: with_state_def getState_def)
  have c: "styleCache ?a 2 \<noteq> None" using cached_style by (simp add: with_state_def)
  have cm: "m_lastMeasuredIndex cached_manager = 2"
    by (simp add: cached_defs sample_defs manager_defs Let_def)
  then have r: "m_lastMeasuredIndex (resetItem cached_manager 0) = - 1"
    by (simp add: resetItem_def)
  from onStateChange_always_recomputes [OF ma sa, of sample_state]
  have "\<exists>s'. onStateChange ?a sample_state = Inr s'
         \<and> styleCache s' = Map.empty
         \<and> sizeAndPositionManager s' = Some (resetItem cached_manager 0)"
    by auto
  with ma c cm r show ?thesis by simp
qed

theorem getStyle_memoized_witness:
  "styleCache cached_list 2
     = Some \<lparr>position = Absolute, width = Str ''100%'', height = Num 20, left = 0, top' = 40,
             zIndex = ZAuto\<rparr>
   \<and> getStyle (\<lambda>x. x) cached_list 2 True
       = Inr (\<lparr>position = Absolute, width = Str ''100%'', height = Num 20, left = 0, top' = 40,
               zIndex = ZAuto\<rparr>, cached_list)
   \<and> styleCache (sample_list VERTICAL) 2 = None
   \<and> sizeAndPositionManager (sample_list VERTICAL) = Some sample_manager
   \<and> getSizeAndPositionForIndex sample_manager 2 = Inr (\<lparr>sp_offset = 40, sp_size = 20\<rparr>, cached_manager)
   \<and> getStyle (\<lambda>x. x) (sample_list VERTICAL) 2 True
       = Inr (itemStyle VERTICAL True \<lparr>sp_offset = 40, sp_size = 20\<rparr>,
              (sample_list VERTICAL)
                \<lparr>sizeAndPositionManager := Some cached_manager,
                 styleCache := [2 \<mapsto> itemStyle VERTICAL True \<lparr>sp_offset = 40, sp_size = 20\<rparr>]\<rparr>)
   \<and> sizeAndPositionManager cached_list = Some cached_manager
   \<and> recomputeSizes cached_list 0
       = Inr (cached_list\<lparr>styleCache := Map.empty,
                           sizeAndPositionManager := Some (resetItem cached_manager 0)\<rparr>)"
proof -
  let ?st = "\<lparr>position = Absolute, width = Str ''100%'', height = Num 20, left = 0, top' = 40,
             zIndex = ZAuto\<rparr>"
  let ?sp = "\<lparr>sp_offset = 40, sp_size = 20\<rparr>"
  have h1: "styleCache cached_list 2 = Some ?st" by (rule cached_style)
  have h2: "styleCache (sample_list VERTICAL) 2 = None" by (simp add: sample_defs Let_def)
  have h3: "sizeAndPositionManager (sample_list VERTICAL) = Some sample_manager"
    by (simp add: sample_defs sample_manager_def Let_def)
  have h4: "getSizeAndPositionForIndex sample_manager 2 = Inr (?sp, cached_manager)"
    by (simp add: cached_defs sample_defs manager_defs Let_def)
  have d: "scrollDirection (props (sample_list VERTICAL)) = VERTICAL"
    by (simp add: sample_defs Let_def)
  from getStyle_memoized [of cached_list 2 ?st "\<lambda>x. x" True cached_manager ?sp cached_manager 0]
    h1 cached_mounted
  have A: "getStyle (\<lambda>x. x) cached_list 2 True = Inr (?st, cached_list)"
    and C: "recomputeSizes cached_list 0
       = Inr (cached_list\<lparr>styleCache := Map.empty,
                           sizeAndPositionManager := Some (resetItem cached_manager 0)\<rparr>)"
    by simp_all
  have c0: "styleCache (sample_list VERTICAL) = Map.empty" by (simp add: sample_defs Let_def)
  from getStyle_memoized [of "sample_list VERTICAL" 2 ?st "\<lambda>x. x" True sample_manager ?sp cached_manager 0]
    h2 h3 h4 d c0
  have B: "getStyle (\<lambda>x. x) (sample_list VERTICAL) 2 True
       = Inr (itemStyle VERTICAL True ?sp,
              (sample_list VERTICAL)
                \<lparr>sizeAndPositionManager := Some cached_manager,
                 styleCache := [2 \<mapsto> itemStyle VERTICAL True ?sp]\<rparr>)"
    by simp
  from h1 h2 h3 h4 A B C cached_mounted show ?thesis by simp
qed

theorem style_cache_ignores_sticky_witness:
  "getStyle (\<lambda>x. x) (sample_list VERTICAL) 2 False
     = Inr (\<lparr>position = Absolute, width = Str ''100%'', height = Num 20, left = 0, top' = 40,
             zIndex = ZAuto\<rparr>, cached_list)
   \<and> getStyle (\<lambda>x. x) cached_list 2 True
     = Inr (\<lparr>position = Absolute, width = Str ''100%'', height = Num 20, left = 0, top' = 40,
             zIndex = ZAuto\<rparr>, cached_list)"
proof -
  let ?st = "\<lparr>position = Absolute, width = Str ''100%'', height = Num 20, left = 0, top' = 40,
             zIndex = ZAuto\<rparr>"
  have h: "getStyle (\<lambda>x. x) (sample_list VERTICAL) 2 False = Inr (?st, cached_list)"
    by (simp add: cached_defs update_defs sample_defs manager_defs Let_def)
  from style_cache_ignores_sticky [OF h, of True] h show ?thesis by simp
qed

theorem empty_range_cases_witness:
  "sizeAndPositionManager no_items_list
     = Some (new_SizeAndPositionManager 0 (getItemSizeGetter (Fixed 20)) (getEstimatedGetter 20 (Fixed 20)))
   \<and> update (\<lambda>x. x) no_items_list ''abcde'' = Inr ([], no_items_list)
   \<and> render_totalSize no_items_list = 0
   \<and> sizeAndPositionManager flat_list = Some sample_manager
   \<and> getContainerSize (props flat_list) = Num 0
   \<and> getVisibleRange sample_manager (Num 0) 65 1 = Inr (empty_range, sample_manager)
   \<and> update (\<lambda>x. x) flat_list ''abcde'' = Inr ([], flat_list)"
proof -
  let ?m0 = "new_SizeAndPositionManager 0 (getItemSizeGetter (Fixed 20)) (getEstimatedGetter 20 (Fixed 20))"
  have h1: "sizeAndPositionManager no_items_list = Some ?m0"
    by (simp add: no_items_list_def sample_defs Let_def)
  have h2: "m_itemCount ?m0 = 0" by (simp add: new_SizeAndPositionManager_def)
  have h3: "sizeAndPositionManager flat_list = Some sample_manager"
    by (simp add: flat_list_def sample_manager_def sample_defs Let_def)
  have h4: "getContainerSize (props flat_list) = Num 0"
    by (simp add: flat_list_def getContainerSize_def sample_defs Let_def)
  from empty_range_cases [OF h1, of "Num 50" 0 0 "\<lambda>x. x" "''abcde''" 0] h2
  have A: "update (\<lambda>x. x) no_items_list ''abcde'' = Inr ([], no_items_list)"
    "render_totalSize no_items_list = 0" by simp_all
  from empty_range_cases [OF h3, of "Num 0" 65 1 "\<lambda>x. x" "''abcde''" 0] h4
  have B: "getVisibleRange sample_manager (Num 0) 65 1 = Inr (empty_range, sample_manager)"
    "update (\<lambda>x. x) flat_list ''abcde'' = Inr ([], flat_list)" by simp_all
  from h1 h3 h4 A B show ?thesis by simp
qed

theorem requests_coalesce_witness:
  "[25, 40, 65] \<noteq> ([] :: rat list)
   \<and> successively (\<noteq>) (offset (component sample_world) # [25, 40, 65])
   \<and> \<not> dm_destroyed (dataManager (props (component sample_world)))
   \<and> executions sample_world = []
   \<and> map (map_sum id (map index))
        (executions (fire (\<lambda>x. x) ''abcde'' (fold scroll [25, 40, 65] sample_world)))
       = [Inr [2, 3, 4]]
   \<and> fire (\<lambda>x. x) ''abcde'' (fire (\<lambda>x. x) ''abcde'' (fold scroll [25, 40, 65] sample_world))
       = fire (\<lambda>x. x) ''abcde'' (fold scroll [25, 40, 65] sample_world)"
proof -
  have h1: "[25, 40, 65] \<noteq> ([] :: rat list)" by simp
  have h2: "successively (\<noteq>) (offset (component sample_world) # [25, 40, 65])"
    by (simp add: sample_world_def sample_defs Let_def)
  have h3: "\<not> dm_destroyed (dataManager (props (component sample_world)))"
    by (simp add: sample_world_def sample_defs Let_def)
  have e: "executions sample_world = []" by (simp add: sample_world_def)
  have s: "(clear_pending (component sample_world))\<lparr>offset := last [25, 40, 65], needUpdate := False\<rparr>
             = clear_pending scrolled_list"
    by (simp add: world_defs sample_defs Let_def)
  have r: "map_sum id (map index) (fst (recompute (\<lambda>x. x) ''abcde'' (clear_pending scrolled_list)))
             = Inr [2, 3, 4]"
    by (simp add: recompute_def update_defs world_defs sample_defs manager_defs Let_def)
  note T = requests_coalesce [OF h1 h2 h3, of "\<lambda>x. x" "''abcde''", unfolded s e append_Nil]
  have f: "fire (\<lambda>x. x) ''abcde'' (fold scroll [25, 40, 65] sample_world) =
           (fold scroll [25, 40, 65] sample_world)
             \<lparr>component := snd (recompute (\<lambda>x. x) ''abcde'' (clear_pending scrolled_list)),
              executions := [fst (recompute (\<lambda>x. x) ''abcde'' (clear_pending scrolled_list))]\<rparr>"
    and g: "fire (\<lambda>x. x) ''abcde'' (fire (\<lambda>x. x) ''abcde'' (fold scroll [25, 40, 65] sample_world))
       = fire (\<lambda>x. x) ''abcde'' (fold scroll [25, 40, 65] sample_world)"
    using T by blast+
  have "map (map_sum id (map index))
        (executions (fire (\<lambda>x. x) ''abcde'' (fold scroll [25, 40, 65] sample_world)))
       = [Inr [2, 3, 4]]"
    unfolding f using r by simp
  with h1 h2 h3 e g show ?thesis by blast
qed

theorem unmount_cancels_recompute_witness:
  "dm_pending (dataManager (props (component (scroll 65 timer_world))))
   \<and> delayUpdateTimer (component (scroll 65 timer_world)) = Some 7
   \<and> 7 \<in> timers (scroll 65 timer_world)
   \<and> 7 \<notin> timers (unmount (scroll 65 timer_world))
   \<and> executions (fire (\<lambda>x. x) ''abcde'' (unmount (scroll 65 timer_world))) = []"
proof -
  have h: "dm_pending (dataManager (props (component (scroll 65 timer_world))))"
    "delayUpdateTimer (component (scroll 65 timer_world)) = Some 7"
    "7 \<in> timers (scroll 65 timer_world)"
    "executions (scroll 65 timer_world) = []"
    by (simp_all add: world_defs sample_defs Let_def)
  from unmount_cancels_recompute [of "scroll 65 timer_world" "\<lambda>x. x" "''abcde''"] h
  show ?thesis by simp
qed

end
